theory Spec2Isabelle
  imports Main "HOL-Library.AList"
begin

section \<open>Values, exceptions and the observable trace\<close>

text \<open>
  The script \<^verbatim>\<open>create_rds.py\<close> handles dynamically typed values: strings, integers,
  booleans, \<^verbatim>\<open>None\<close>, lists and dictionaries (the provider's responses and the request
  parameters). A dictionary is an association list, updated as Python does: an existing key
  keeps its place, a new key goes to the end.
\<close>

datatype pyval =
    PNone
  | PBool bool
  | PInt int
  | PStr string
  | PList "pyval list"
  | PDict "(string \<times> pyval) list"

text \<open>
  The exception classes the script distinguishes in its \<^verbatim>\<open>except\<close> clauses, and one
  constructor for every other class (none of which the script catches).
  A \<^verbatim>\<open>ClientError\<close> carries its \<^verbatim>\<open>response\<close>.
\<close>

datatype exn =
    ClientError pyval
  | WaiterError string
  | OtherError string

text \<open>
  Everything the process does that can be seen from outside, in order: lines printed,
  the secret prompt, and every call into the provider SDK.
\<close>

datatype event =
    Print "pyval list"
  | Print_help
  | Print_usage_error string
  | Getpass string
  | Session_new "(string \<times> pyval) list"
  | Client_new string
  | Api_create_db_instance "(string \<times> pyval) list"
  | Get_waiter string
  | Clock_read
  | Waiter_wait pyval "(string \<times> pyval) list"
  | Api_status_check pyval
  | Sleep int
  | Api_describe_db_instances pyval

text \<open>The answer of one status check made by the waiter.\<close>

datatype poll_result =
    Poll_retry
  | Poll_success
  | Poll_failure
  | Poll_raise exn

text \<open>
  The world outside the process: what the user types at the secret prompt and how the
  provider answers each request.
\<close>

record world =
  getpass_reply :: string
  create_reply :: "exn + pyval"
  poll_reply :: "nat \<Rightarrow> poll_result"
  describe_reply :: "exn + pyval"

text \<open>The parsed command line, one field per \<^verbatim>\<open>add_argument\<close>.\<close>

record args =
  db_instance_identifier :: "string option"
  db_instance_class :: string
  engine :: string
  allocated_storage :: int
  db_name :: string
  master_username :: string
  master_user_password :: "string option"
  vpc_security_group_ids :: "string list option"
  db_subnet_group_name :: "string option"
  publicly_accessible :: bool
  multi_az :: bool
  backup_retention_period :: int
  region :: "string option"

datatype outcome =
    Returned
  | Sys_exit int
  | Uncaught exn

text \<open>
  The exit status of the process: 0 when \<^verbatim>\<open>main\<close> returns, the argument of
  \<^verbatim>\<open>sys.exit\<close>, and 1 when an exception reaches the top level.
\<close>

fun exit_code :: "outcome \<Rightarrow> int" where
  "exit_code Returned = 0"
| "exit_code (Sys_exit n) = n"
| "exit_code (Uncaught e) = 1"

section \<open>Python primitives\<close>

fun opt_str :: "string option \<Rightarrow> pyval" where
  "opt_str None = PNone"
| "opt_str (Some s) = PStr s"

text \<open>Truth value testing, as \<^verbatim>\<open>if x:\<close> and \<^verbatim>\<open>x or y\<close> do it.\<close>

fun truthy_str :: "string option \<Rightarrow> bool" where
  "truthy_str None = False"
| "truthy_str (Some s) = (s \<noteq> [])"

fun truthy_list :: "'a list option \<Rightarrow> bool" where
  "truthy_list None = False"
| "truthy_list (Some xs) = (xs \<noteq> [])"

text \<open>
  \<^verbatim>\<open>d.get(k, default)\<close>: only a dictionary has the method; on any other value the
  attribute lookup raises \<^verbatim>\<open>AttributeError\<close>.
\<close>

fun py_get :: "pyval \<Rightarrow> string \<Rightarrow> pyval \<Rightarrow> exn + pyval" where
  "py_get (PDict d) k dflt = (case map_of d k of Some v \<Rightarrow> Inr v | None \<Rightarrow> Inr dflt)"
| "py_get v k dflt = Inl (OtherError ''AttributeError'')"

text \<open>\<^verbatim>\<open>x.get(k1, {}).get(k2)\<close>.\<close>

definition py_get2 :: "pyval \<Rightarrow> string \<Rightarrow> string \<Rightarrow> exn + pyval" where
  "py_get2 x k1 k2 =
     (case py_get x k1 (PDict []) of
        Inl e \<Rightarrow> Inl e
      | Inr y \<Rightarrow> py_get y k2 PNone)"

text \<open>\<^verbatim>\<open>resp[k]\<close> with a string key.\<close>

fun py_item :: "pyval \<Rightarrow> string \<Rightarrow> exn + pyval" where
  "py_item (PDict d) k = (case map_of d k of Some v \<Rightarrow> Inr v | None \<Rightarrow> Inl (OtherError ''KeyError''))"
| "py_item v k = Inl (OtherError ''TypeError'')"

text \<open>\<^verbatim>\<open>xs[0]\<close>.\<close>

fun py_first :: "pyval \<Rightarrow> exn + pyval" where
  "py_first (PList []) = Inl (OtherError ''IndexError'')"
| "py_first (PList (x # xs)) = Inr x"
| "py_first (PStr []) = Inl (OtherError ''IndexError'')"
| "py_first (PStr (c # cs)) = Inr (PStr [c])"
| "py_first (PDict d) = Inl (OtherError ''KeyError'')"
| "py_first v = Inl (OtherError ''TypeError'')"

text \<open>
  \<^verbatim>\<open>int(timeout_seconds / 30)\<close>: the true division of two integers gives the floating-point
  number nearest to the exact quotient (53 significant bits, ties to the even neighbour),
  or raises \<^verbatim>\<open>OverflowError\<close> when that number is beyond the largest double; \<^verbatim>\<open>int\<close> then
  truncates towards zero. The quotient is exact as long as it is an integer below \<open>2^53\<close>.
\<close>

function bit_length :: "int \<Rightarrow> nat" where
  "bit_length n = (if n \<le> 0 then 0 else Suc (bit_length (n div 2)))"
  by pat_completeness auto
termination
  by (relation "measure nat") auto

declare bit_length.simps [simp del]

text \<open>The integer nearest to \<open>n / d\<close>, ties to even, for \<open>0 \<le> n\<close> and \<open>0 < d\<close>.\<close>

definition round_half_even :: "int \<Rightarrow> int \<Rightarrow> int" where
  "round_half_even n d =
     (let q = n div d; r = n mod d
      in if 2 * r < d then q
         else if d < 2 * r then q + 1
         else if even q then q else q + 1)"

text \<open>The binary exponent \<open>e\<close> of a positive quotient: \<open>2^e \<le> n / d < 2^(e+1)\<close>.\<close>

definition float_exponent :: "int \<Rightarrow> int \<Rightarrow> int" where
  "float_exponent n d =
     (let e0 = int (bit_length n) - int (bit_length d)
      in if (if 0 \<le> e0 then d * 2 ^ nat e0 \<le> n else d \<le> n * 2 ^ nat (- e0))
         then e0 else e0 - 1)"

definition int_of_truediv :: "int \<Rightarrow> int \<Rightarrow> exn + int" where
  "int_of_truediv a b =
     (if b = 0 then Inl (OtherError ''ZeroDivisionError'')
      else if a = 0 then Inr 0
      else (let n = \<bar>a\<bar>; d = \<bar>b\<bar>;
                sh = max (float_exponent n d - 52) (- 1074);
                m = (if 0 \<le> sh then round_half_even n (d * 2 ^ nat sh)
                     else round_half_even (n * 2 ^ nat (- sh)) d)
            in if 0 \<le> sh \<and> 2 ^ 1024 \<le> m * 2 ^ nat sh
               then Inl (OtherError ''OverflowError'')
               else Inr (sgn a * sgn b *
                         (if 0 \<le> sh then m * 2 ^ nat sh else m div 2 ^ nat (- sh)))))"

section \<open>The handler shared by the three request functions\<close>

text \<open>
  \<^verbatim>\<open>except botocore.exceptions.ClientError as e: print(label, e.response.get("Error", {}).get("Message"))\<close>.
  Any other exception class is not caught and propagates; so does an exception raised
  while the handler evaluates the message.
\<close>

definition on_client_error :: "string \<Rightarrow> exn \<Rightarrow> event list \<times> (exn + unit)" where
  "on_client_error label e =
     (case e of
        ClientError r \<Rightarrow>
          (case py_get2 r ''Error'' ''Message'' of
             Inl e' \<Rightarrow> ([], Inl e')
           | Inr m \<Rightarrow> ([Print [PStr label, m]], Inr ()))
      | _ \<Rightarrow> ([], Inl e))"

section \<open>create_db_instance\<close>

definition password_of :: "world \<Rightarrow> args \<Rightarrow> string \<times> event list" where
  "password_of w a =
     (if truthy_str (master_user_password a)
      then (the (master_user_password a), [])
      else (getpass_reply w, [Getpass ''Master user password: '']))"

definition base_params :: "args \<Rightarrow> string \<Rightarrow> (string \<times> pyval) list" where
  "base_params a pw =
     [(''DBInstanceIdentifier'', opt_str (db_instance_identifier a)),
      (''AllocatedStorage'', PInt (allocated_storage a)),
      (''DBInstanceClass'', PStr (db_instance_class a)),
      (''Engine'', PStr (engine a)),
      (''MasterUsername'', PStr (master_username a)),
      (''MasterUserPassword'', PStr pw),
      (''DBName'', PStr (db_name a)),
      (''MultiAZ'', PBool (multi_az a)),
      (''PubliclyAccessible'', PBool (publicly_accessible a)),
      (''BackupRetentionPeriod'', PInt (backup_retention_period a)),
      (''StorageType'', PStr ''gp2'')]"

definition build_params :: "args \<Rightarrow> string \<Rightarrow> (string \<times> pyval) list" where
  "build_params a pw =
     (let params = base_params a pw;
          params = (if truthy_list (vpc_security_group_ids a)
                    then AList.update ''VpcSecurityGroupIds''
                           (PList (map PStr (the (vpc_security_group_ids a)))) params
                    else params);
          params = (if truthy_str (db_subnet_group_name a)
                    then AList.update ''DBSubnetGroupName''
                           (PStr (the (db_subnet_group_name a))) params
                    else params)
      in params)"

definition create_db_instance :: "world \<Rightarrow> args \<Rightarrow> event list \<times> (exn + bool)" where
  "create_db_instance w a =
     (let (pw, ev_pw) = password_of w a;
          params = build_params a pw;
          ev = ev_pw @ [Print [PStr ''Creating DB instance'', opt_str (db_instance_identifier a)],
                        Api_create_db_instance params];
          status = (case create_reply w of
                      Inl e \<Rightarrow> Inl e
                    | Inr resp \<Rightarrow> py_get2 resp ''DBInstance'' ''DBInstanceStatus'')
      in case status of
           Inr st \<Rightarrow> (ev @ [Print [PStr ''Create call accepted, status:'', st]], Inr True)
         | Inl e \<Rightarrow>
             (case on_client_error ''Error creating DB instance:'' e of
                (ev', Inl e') \<Rightarrow> (ev @ ev', Inl e')
              | (ev', Inr u) \<Rightarrow> (ev @ ev', Inr False)))"

section \<open>wait_for_available\<close>

text \<open>
  Modelled from the spec: the waiter of the provider SDK, which is no part of the
  repository's sources. Its loop is written out from what the SDK documents and the
  specification's glossary says of it (a bounded polling helper that repeatedly checks a
  resource's status until a target state or timeout): one status check per attempt,
  success and failure states end the wait, and when the number of checks made reaches
  \<open>MaxAttempts\<close> without a final state it raises \<^verbatim>\<open>WaiterError\<close>; between two checks
  it sleeps \<open>Delay\<close> seconds. The argument \<open>n\<close> counts the checks already made.
\<close>

function waiter_wait :: "world \<Rightarrow> pyval \<Rightarrow> int \<Rightarrow> int \<Rightarrow> nat \<Rightarrow> event list \<times> (exn + unit)" where
  "waiter_wait w ident delay max_attempts n =
     (case poll_reply w n of
        Poll_success \<Rightarrow> ([Api_status_check ident], Inr ())
      | Poll_failure \<Rightarrow> ([Api_status_check ident], Inl (WaiterError ''Waiter encountered a terminal failure state''))
      | Poll_raise e \<Rightarrow> ([Api_status_check ident], Inl e)
      | Poll_retry \<Rightarrow>
          (if max_attempts \<le> int (Suc n)
           then ([Api_status_check ident], Inl (WaiterError ''Max attempts exceeded''))
           else (case waiter_wait w ident delay max_attempts (Suc n) of
                   (ev, r) \<Rightarrow> (Api_status_check ident # Sleep delay # ev, r))))"
  by pat_completeness auto
termination
  by (relation "measure (\<lambda>(w, ident, delay, max_attempts, n). nat (max_attempts - int n))") auto

declare waiter_wait.simps [simp del]

text \<open>
  The \<^verbatim>\<open>except\<close> clauses of \<^verbatim>\<open>wait_for_available\<close>, applied to what the \<^verbatim>\<open>try\<close> block
  did: \<open>ev\<close> are its events, \<open>r\<close> its result.
\<close>

definition wait_handlers :: "event list \<Rightarrow> exn + unit \<Rightarrow> event list \<times> (exn + bool)" where
  "wait_handlers ev r =
     (case r of
        Inr u \<Rightarrow> (ev, Inr True)
      | Inl (WaiterError m) \<Rightarrow>
          (ev @ [Print [PStr ''Timed out waiting for DB to become available:'', PStr m]], Inr False)
      | Inl e \<Rightarrow>
          (case on_client_error ''Error while waiting:'' e of
             (ev'', Inl e') \<Rightarrow> (ev @ ev'', Inl e')
           | (ev'', Inr u) \<Rightarrow> (ev @ ev'', Inr False)))"

text \<open>
  The timeout is an integer number of minutes, as \<^verbatim>\<open>main\<close> passes it. The number of
  attempts is computed inside the \<^verbatim>\<open>try\<close> block, after the line is printed and before
  the waiter is called; an \<^verbatim>\<open>OverflowError\<close> there is caught by neither clause.
\<close>

definition wait_for_available :: "world \<Rightarrow> pyval \<Rightarrow> int \<Rightarrow> event list \<times> (exn + bool)" where
  "wait_for_available w identifier timeout_minutes =
     (let timeout_seconds = timeout_minutes * 60;
          delay = 30;
          ev = [Get_waiter ''db_instance_available'', Clock_read,
                Print [PStr ''Waiting for DB instance to become available (this may take several minutes)...'']]
      in case int_of_truediv timeout_seconds 30 of
           Inl e \<Rightarrow> wait_handlers ev (Inl e)
         | Inr max_attempts \<Rightarrow>
             (case waiter_wait w identifier delay max_attempts 0 of
                (ev', r) \<Rightarrow>
                  wait_handlers
                    (ev @ [Waiter_wait identifier [(''Delay'', PInt delay), (''MaxAttempts'', PInt max_attempts)]]
                        @ ev') r))"

section \<open>describe_endpoint\<close>

text \<open>The part of the \<^verbatim>\<open>try\<close> block that reads the response: address and port.\<close>

definition endpoint_of :: "pyval \<Rightarrow> exn + (pyval \<times> pyval)" where
  "endpoint_of resp =
     (case py_item resp ''DBInstances'' of
        Inl e \<Rightarrow> Inl e
      | Inr insts \<Rightarrow>
          (case py_first insts of
             Inl e \<Rightarrow> Inl e
           | Inr inst \<Rightarrow>
               (case py_get inst ''Endpoint'' (PDict []) of
                  Inl e \<Rightarrow> Inl e
                | Inr endpoint \<Rightarrow>
                    (case py_get endpoint ''Address'' PNone of
                       Inl e \<Rightarrow> Inl e
                     | Inr addr \<Rightarrow>
                         (case py_get endpoint ''Port'' PNone of
                            Inl e \<Rightarrow> Inl e
                          | Inr port \<Rightarrow> Inr (addr, port))))))"

definition describe_endpoint :: "world \<Rightarrow> pyval \<Rightarrow> event list \<times> (exn + (pyval \<times> pyval))" where
  "describe_endpoint w identifier =
     (let ev = [Api_describe_db_instances identifier];
          r = (case describe_reply w of
                 Inl e \<Rightarrow> Inl e
               | Inr resp \<Rightarrow> endpoint_of resp)
      in case r of
           Inr (addr, port) \<Rightarrow>
             (ev @ [Print [PStr ''DB instance available.''],
                    Print [PStr ''Endpoint:'', addr],
                    Print [PStr ''Port:'', port]], Inr (addr, port))
         | Inl e \<Rightarrow>
             (case on_client_error ''Error describing DB instance:'' e of
                (ev', Inl e') \<Rightarrow> (ev @ ev', Inl e')
              | (ev', Inr u) \<Rightarrow> (ev @ ev', Inr (PNone, PNone))))"

section \<open>main\<close>

text \<open>Lines 100 to 115 of \<^verbatim>\<open>main\<close>: everything after the command line is parsed.\<close>

definition main_from_args :: "world \<Rightarrow> args \<Rightarrow> event list \<times> outcome" where
  "main_from_args w a =
     (let session_kwargs = (if truthy_str (region a)
                            then AList.update ''region_name'' (PStr (the (region a))) []
                            else []);
          ev0 = [Session_new session_kwargs, Client_new ''rds''];
          ident = opt_str (db_instance_identifier a)
      in case create_db_instance w a of
           (ev1, Inl e) \<Rightarrow> (ev0 @ ev1, Uncaught e)
         | (ev1, Inr False) \<Rightarrow> (ev0 @ ev1, Sys_exit 1)
         | (ev1, Inr True) \<Rightarrow>
             (case wait_for_available w ident 30 of
                (ev2, Inl e) \<Rightarrow> (ev0 @ ev1 @ ev2, Uncaught e)
              | (ev2, Inr False) \<Rightarrow> (ev0 @ ev1 @ ev2, Sys_exit 2)
              | (ev2, Inr True) \<Rightarrow>
                  (case describe_endpoint w ident of
                     (ev3, Inl e) \<Rightarrow> (ev0 @ ev1 @ ev2 @ ev3, Uncaught e)
                   | (ev3, Inr r) \<Rightarrow> (ev0 @ ev1 @ ev2 @ ev3, Returned))))"

section \<open>parse_args\<close>

text \<open>
  The parser declared by \<^verbatim>\<open>parse_args\<close>: one action per \<^verbatim>\<open>add_argument\<close>, and the
  help action every \<^verbatim>\<open>ArgumentParser\<close> has. The interpreter below follows the
  standard library's argument parser: each command-line word is classified first (option
  string, abbreviation, attached value, positional word), then the options are consumed
  from left to right, each action running as soon as its option is consumed.
  It is written after \<^verbatim>\<open>argparse\<close> as of Python 3.11. The text of the help and of the
  usage messages is not modelled: a usage error carries a short message, and both kinds
  of exit carry their exit status (0 for the help, 2 for a usage error).
\<close>

datatype action =
    A_help
  | A_db_instance_identifier
  | A_db_instance_class
  | A_engine
  | A_allocated_storage
  | A_db_name
  | A_master_username
  | A_master_user_password
  | A_vpc_security_group_ids
  | A_db_subnet_group_name
  | A_publicly_accessible
  | A_multi_az
  | A_backup_retention_period
  | A_region

definition option_strings :: "(string \<times> action) list" where
  "option_strings =
     [(''-h'', A_help), (''--help'', A_help),
      (''--db-instance-identifier'', A_db_instance_identifier), (''-i'', A_db_instance_identifier),
      (''--db-instance-class'', A_db_instance_class), (''-c'', A_db_instance_class),
      (''--engine'', A_engine),
      (''--allocated-storage'', A_allocated_storage),
      (''--db-name'', A_db_name),
      (''--master-username'', A_master_username),
      (''--master-user-password'', A_master_user_password),
      (''--vpc-security-group-ids'', A_vpc_security_group_ids),
      (''--db-subnet-group-name'', A_db_subnet_group_name),
      (''--publicly-accessible'', A_publicly_accessible),
      (''--multi-az'', A_multi_az),
      (''--backup-retention-period'', A_backup_retention_period),
      (''--region'', A_region)]"

definition engine_choices :: "string list" where
  "engine_choices = [''postgres'', ''mysql'', ''mariadb'', ''oracle-se2'', ''sqlserver-ex'']"

datatype nargs = N_zero | N_one | N_star

fun nargs_of :: "action \<Rightarrow> nargs" where
  "nargs_of A_help = N_zero"
| "nargs_of A_publicly_accessible = N_zero"
| "nargs_of A_multi_az = N_zero"
| "nargs_of A_vpc_security_group_ids = N_star"
| "nargs_of a = N_one"

definition default_args :: args where
  "default_args =
     \<lparr> db_instance_identifier = None,
       db_instance_class = ''db.t3.micro'',
       engine = ''postgres'',
       allocated_storage = 20,
       db_name = ''mydb'',
       master_username = ''admin'',
       master_user_password = None,
       vpc_security_group_ids = None,
       db_subnet_group_name = None,
       publicly_accessible = False,
       multi_az = False,
       backup_retention_period = 7,
       region = None \<rparr>"

subsection \<open>Strings\<close>

definition is_digit :: "char \<Rightarrow> bool" where
  "is_digit c = (c \<in> set ''0123456789'')"

definition is_space :: "char \<Rightarrow> bool" where
  "is_space c = (c \<in> set [CHR '' '', CHR 0x09, CHR 0x0A, CHR 0x0B, CHR 0x0C, CHR 0x0D])"

definition digit_val :: "char \<Rightarrow> int" where
  "digit_val c = int (of_char c) - 48"

text \<open>\<^verbatim>\<open>s.partition('=')\<close>: the text before the first \<^verbatim>\<open>=\<close> and, when there is one, the text after it.\<close>

fun partition_eq :: "string \<Rightarrow> string \<times> string option" where
  "partition_eq [] = ([], None)"
| "partition_eq (c # cs) =
     (if c = CHR ''='' then ([], Some cs)
      else (case partition_eq cs of (l, r) \<Rightarrow> (c # l, r)))"

text \<open>
  \<^verbatim>\<open>int(s)\<close> on a string: surrounding white space is dropped, a sign may lead, then
  decimal digits, where single underscores may stand between digits. White space is the
  blank, tab, line feed, vertical tab, form feed and carriage return; a text of more than
  4300 digits is refused.
\<close>

fun digits_value :: "string \<Rightarrow> int \<Rightarrow> bool \<Rightarrow> int option" where
  "digits_value [] acc prev_digit = (if prev_digit then Some acc else None)"
| "digits_value (c # cs) acc prev_digit =
     (if is_digit c then digits_value cs (acc * 10 + digit_val c) True
      else if c = CHR ''_'' \<and> prev_digit then digits_value cs acc False
      else None)"

definition strip :: "string \<Rightarrow> string" where
  "strip s = rev (dropWhile is_space (rev (dropWhile is_space s)))"

definition py_int :: "string \<Rightarrow> int option" where
  "py_int s =
     (case strip s of
        [] \<Rightarrow> None
      | c # cs \<Rightarrow>
          (let body = (if c = CHR ''-'' \<or> c = CHR ''+'' then cs else c # cs);
               v = (if 4300 < length (filter is_digit body) then None
                    else digits_value body 0 False)
           in if c = CHR ''-'' then map_option uminus v else v))"

text \<open>
  The words that look like a negative number: \<^verbatim>\<open>-\<close> and digits, or \<^verbatim>\<open>-\<close>, digits, a
  point and at least one digit; a final newline is tolerated, as the pattern's \<^verbatim>\<open>$\<close> does.
\<close>

definition looks_negative_number :: "string \<Rightarrow> bool" where
  "looks_negative_number s =
     (case s of
        [] \<Rightarrow> False
      | c # cs \<Rightarrow>
          c = CHR ''-'' \<and>
          (let body = (if cs \<noteq> [] \<and> last cs = CHR 0x0A then butlast cs else cs);
               ds = takeWhile is_digit body;
               rest = dropWhile is_digit body
           in (ds \<noteq> [] \<and> rest = [])
            \<or> (case rest of
                  [] \<Rightarrow> False
                | d # fs \<Rightarrow> d = CHR ''.'' \<and> fs \<noteq> [] \<and> list_all is_digit fs)))"

subsection \<open>Classifying one word\<close>

text \<open>
  A word is a positional word, an option of the parser (with the option string it stands
  for, whether a separator \<^verbatim>\<open>=\<close> was seen, and the attached value if any), an option the
  parser does not know, or an abbreviation that fits several options.
\<close>

datatype word_class =
    Positional
  | Double_dash
  | Known action string bool "string option"
  | Unknown_option
  | Ambiguous

definition get_option_tuples :: "string \<Rightarrow> word_class list" where
  "get_option_tuples w =
     (if take 2 w = ''--''
      then (case partition_eq w of
              (option_prefix, explicit_arg) \<Rightarrow>
                map (\<lambda>(s, a). Known a s (explicit_arg \<noteq> None) explicit_arg)
                    (filter (\<lambda>(s, a). take (length option_prefix) s = option_prefix) option_strings))
      else concat (map (\<lambda>(s, a).
                     if s = take 2 w then [Known a s False (Some (drop 2 w))]
                     else if take (length w) s = w then [Known a s False None]
                     else []) option_strings))"

definition parse_optional :: "string \<Rightarrow> word_class" where
  "parse_optional w =
     (if w = [] then Positional
      else if hd w \<noteq> CHR ''-'' then Positional
      else (case map_of option_strings w of
              Some a \<Rightarrow> Known a w False None
            | None \<Rightarrow>
                if length w = 1 then Positional
                else (case partition_eq w of
                        (option_string, explicit_arg) \<Rightarrow>
                          (case (explicit_arg, map_of option_strings option_string) of
                             (Some v, Some a) \<Rightarrow> Known a option_string True (Some v)
                           | _ \<Rightarrow>
                               (case get_option_tuples w of
                                  [] \<Rightarrow>
                                    if looks_negative_number w then Positional
                                    else if CHR '' '' \<in> set w then Positional
                                    else Unknown_option
                                | [t] \<Rightarrow> t
                                | _ \<Rightarrow> Ambiguous)))))"

text \<open>Every word after the first \<^verbatim>\<open>--\<close> is positional.\<close>

fun classify :: "string list \<Rightarrow> (string \<times> word_class) list" where
  "classify [] = []"
| "classify (w # ws) =
     (if w = ''--'' then (w, Double_dash) # map (\<lambda>v. (v, Positional)) ws
      else (w, parse_optional w) # classify ws)"

subsection \<open>Consuming the options\<close>

datatype parse_result =
    Parsed args
  | Parser_exit int "event list"

datatype step =
    Step_error string
  | Step_help
  | Step_ok args

fun is_positional :: "string \<times> word_class \<Rightarrow> bool" where
  "is_positional (w, Positional) = True"
| "is_positional (w, c) = False"

text \<open>
  One option and what follows it. With an attached value the action takes that value, or,
  for a single-dash flag that takes none, the rest of the word is read as further
  single-dash options. Without one the action takes the positional words that follow:
  exactly one, or as many as there are. The result is the list of actions to run with
  their values, the number of following words used, and the words left unrecognised.
\<close>

function consume_optional ::
  "action \<Rightarrow> string \<Rightarrow> bool \<Rightarrow> string option \<Rightarrow> (string \<times> word_class) list
     \<Rightarrow> string + ((action \<times> string list) list \<times> nat \<times> string list)" where
  "consume_optional a os sep None rest =
     (case nargs_of a of
        N_zero \<Rightarrow> Inr ([(a, [])], 0, [])
      | N_one \<Rightarrow>
          (case rest of
             [] \<Rightarrow> Inl ''expected one argument''
           | r # rs \<Rightarrow> if is_positional r then Inr ([(a, [fst r])], 1, [])
                       else Inl ''expected one argument'')
      | N_star \<Rightarrow>
          (let vs = takeWhile is_positional rest
           in Inr ([(a, map fst vs)], length vs, [])))"
| "consume_optional a os sep (Some ex) rest =
     (if nargs_of a = N_zero \<and> hd (tl os) \<noteq> CHR ''-'' \<and> ex \<noteq> []
      then (if sep \<or> hd ex = CHR ''-'' then Inl ''ignored explicit argument''
            else (let os' = [hd os, hd ex]
                  in case map_of option_strings os' of
                       Some a' \<Rightarrow>
                         (case consume_optional a' os'
                                 (tl ex \<noteq> [] \<and> hd (tl ex) = CHR ''='')
                                 (if tl ex = [] then None
                                  else if hd (tl ex) = CHR ''='' then Some (tl (tl ex))
                                  else Some (tl ex))
                                 rest of
                            Inl m \<Rightarrow> Inl m
                          | Inr (ts, n, xs) \<Rightarrow> Inr ((a, []) # ts, n, xs))
                     | None \<Rightarrow> Inr ([(a, [])], 0, [hd os # ex])))
      else if nargs_of a \<noteq> N_zero then Inr ([(a, [ex])], 0, [])
      else Inl ''ignored explicit argument'')"
  by pat_completeness auto
termination
  by (relation "measure (\<lambda>(a, os, sep, ex, rest). case ex of None \<Rightarrow> 0 | Some e \<Rightarrow> Suc (length e))")
     (auto split: option.splits if_splits simp: Suc_le_eq)

declare consume_optional.simps [simp del]

text \<open>
  Running one action on its values: the type conversion, the check against the choices,
  then the store into the namespace. The help action prints the help and exits.
\<close>

fun take_action :: "action \<Rightarrow> string list \<Rightarrow> args \<Rightarrow> step" where
  "take_action A_help vs ns = Step_help"
| "take_action A_publicly_accessible vs ns = Step_ok (ns\<lparr>publicly_accessible := True\<rparr>)"
| "take_action A_multi_az vs ns = Step_ok (ns\<lparr>multi_az := True\<rparr>)"
| "take_action A_vpc_security_group_ids vs ns = Step_ok (ns\<lparr>vpc_security_group_ids := Some vs\<rparr>)"
| "take_action a [] ns = Step_error ''expected one argument''"
| "take_action A_db_instance_identifier (v # vs) ns = Step_ok (ns\<lparr>db_instance_identifier := Some v\<rparr>)"
| "take_action A_db_instance_class (v # vs) ns = Step_ok (ns\<lparr>db_instance_class := v\<rparr>)"
| "take_action A_engine (v # vs) ns =
     (if v \<in> set engine_choices then Step_ok (ns\<lparr>engine := v\<rparr>)
      else Step_error ''invalid choice'')"
| "take_action A_allocated_storage (v # vs) ns =
     (case py_int v of
        None \<Rightarrow> Step_error ''invalid int value''
      | Some n \<Rightarrow> Step_ok (ns\<lparr>allocated_storage := n\<rparr>))"
| "take_action A_db_name (v # vs) ns = Step_ok (ns\<lparr>db_name := v\<rparr>)"
| "take_action A_master_username (v # vs) ns = Step_ok (ns\<lparr>master_username := v\<rparr>)"
| "take_action A_master_user_password (v # vs) ns = Step_ok (ns\<lparr>master_user_password := Some v\<rparr>)"
| "take_action A_db_subnet_group_name (v # vs) ns = Step_ok (ns\<lparr>db_subnet_group_name := Some v\<rparr>)"
| "take_action A_backup_retention_period (v # vs) ns =
     (case py_int v of
        None \<Rightarrow> Step_error ''invalid int value''
      | Some n \<Rightarrow> Step_ok (ns\<lparr>backup_retention_period := n\<rparr>))"
| "take_action A_region (v # vs) ns = Step_ok (ns\<lparr>region := Some v\<rparr>)"

fun run_actions :: "(action \<times> string list) list \<Rightarrow> args \<Rightarrow> step" where
  "run_actions [] ns = Step_ok ns"
| "run_actions ((a, vs) # ts) ns =
     (case take_action a vs ns of
        Step_ok ns' \<Rightarrow> run_actions ts ns'
      | s \<Rightarrow> s)"

text \<open>
  After the last word: the required identifier must have been stored, and no word may be
  left unrecognised. Both failures are usage errors, exit status 2.
\<close>

definition finish :: "args \<Rightarrow> string list \<Rightarrow> parse_result" where
  "finish ns extras =
     (if db_instance_identifier ns = None
      then Parser_exit 2 [Print_usage_error ''the following arguments are required: --db-instance-identifier/-i'']
      else if extras \<noteq> []
      then Parser_exit 2 [Print_usage_error ''unrecognized arguments'']
      else Parsed ns)"

function consume :: "(string \<times> word_class) list \<Rightarrow> args \<Rightarrow> string list \<Rightarrow> parse_result" where
  "consume [] ns extras = finish ns extras"
| "consume ((w, c) # rest) ns extras =
     (case c of
        Known a os sep ex \<Rightarrow>
          (case consume_optional a os sep ex rest of
             Inl m \<Rightarrow> Parser_exit 2 [Print_usage_error m]
           | Inr (ts, n, xs) \<Rightarrow>
               (case run_actions ts ns of
                  Step_error m \<Rightarrow> Parser_exit 2 [Print_usage_error m]
                | Step_help \<Rightarrow> Parser_exit 0 [Print_help]
                | Step_ok ns' \<Rightarrow> consume (drop n rest) ns' (extras @ xs)))
      | _ \<Rightarrow> consume rest ns (extras @ [w]))"
  by pat_completeness auto
termination
  by (relation "measure (\<lambda>(ws, ns, extras). length ws)") auto

definition parse_args :: "string list \<Rightarrow> parse_result" where
  "parse_args argv =
     (let ws = classify argv
      in if Ambiguous \<in> snd ` set ws
         then Parser_exit 2 [Print_usage_error ''ambiguous option'']
         else consume ws default_args [])"

text \<open>\<^verbatim>\<open>main\<close>: the command line is parsed, then the three requests follow.\<close>

definition main :: "world \<Rightarrow> string list \<Rightarrow> event list \<times> outcome" where
  "main w argv =
     (case parse_args argv of
        Parser_exit n ev \<Rightarrow> (ev, Sys_exit n)
      | Parsed a \<Rightarrow> main_from_args w a)"

section \<open>Events of interest\<close>

fun is_create_call :: "event \<Rightarrow> bool" where
  "is_create_call (Api_create_db_instance p) = True"
| "is_create_call e = False"

fun is_wait_call :: "event \<Rightarrow> bool" where
  "is_wait_call (Get_waiter n) = True"
| "is_wait_call (Waiter_wait i c) = True"
| "is_wait_call (Api_status_check i) = True"
| "is_wait_call (Sleep d) = True"
| "is_wait_call e = False"

fun is_wait_start :: "event \<Rightarrow> bool" where
  "is_wait_start (Waiter_wait i c) = True"
| "is_wait_start e = False"

fun is_status_check :: "event \<Rightarrow> bool" where
  "is_status_check (Api_status_check i) = True"
| "is_status_check e = False"

fun is_describe_call :: "event \<Rightarrow> bool" where
  "is_describe_call (Api_describe_db_instances i) = True"
| "is_describe_call e = False"

text \<open>Calls into the provider SDK: the session, the client and every request.\<close>

fun is_provider_call :: "event \<Rightarrow> bool" where
  "is_provider_call (Print vs) = False"
| "is_provider_call Print_help = False"
| "is_provider_call (Print_usage_error m) = False"
| "is_provider_call (Getpass p) = False"
| "is_provider_call Clock_read = False"
| "is_provider_call (Sleep d) = False"
| "is_provider_call e = True"

text \<open>The session arguments and the first two events of every run that parsed its command line.\<close>

definition session_events :: "args \<Rightarrow> event list" where
  "session_events a =
     [Session_new (if truthy_str (region a) then [(''region_name'', PStr (the (region a)))] else []),
      Client_new ''rds'']"

text \<open>The events of \<^verbatim>\<open>create_db_instance\<close> up to and including the request.\<close>

definition create_events :: "world \<Rightarrow> args \<Rightarrow> event list" where
  "create_events w a =
     snd (password_of w a) @
     [Print [PStr ''Creating DB instance'', opt_str (db_instance_identifier a)],
      Api_create_db_instance (build_params a (fst (password_of w a)))]"

text \<open>The create request was accepted: the call returned a response whose status can be read.\<close>

definition create_accepted :: "world \<Rightarrow> pyval \<Rightarrow> bool" where
  "create_accepted w st =
     (case create_reply w of
        Inl e \<Rightarrow> False
      | Inr resp \<Rightarrow> py_get2 resp ''DBInstance'' ''DBInstanceStatus'' = Inr st)"

text \<open>The outcome of the waiter as \<^verbatim>\<open>main\<close> configures it: 30 seconds, 60 attempts.\<close>

definition wait_result :: "world \<Rightarrow> args \<Rightarrow> event list \<times> (exn + unit)" where
  "wait_result w a = waiter_wait w (opt_str (db_instance_identifier a)) 30 60 0"

definition wait_events :: "world \<Rightarrow> args \<Rightarrow> event list" where
  "wait_events w a =
     [Get_waiter ''db_instance_available'', Clock_read,
      Print [PStr ''Waiting for DB instance to become available (this may take several minutes)...''],
      Waiter_wait (opt_str (db_instance_identifier a)) [(''Delay'', PInt 30), (''MaxAttempts'', PInt 60)]]
     @ fst (wait_result w a)"

section \<open>Example runs\<close>

text \<open>One command line and a few worlds, used to run the program on concrete inputs.\<close>

definition example_argv :: "string list" where
  "example_argv = [''-i'', ''db1'']"

definition example_args :: args where
  "example_args = default_args\<lparr>db_instance_identifier := Some ''db1''\<rparr>"

definition error_response :: "string \<Rightarrow> pyval" where
  "error_response m = PDict [(''Error'', PDict [(''Code'', PStr ''Denied''), (''Message'', PStr m)])]"

definition world_ok :: world where
  "world_ok =
     \<lparr> getpass_reply = ''secret'',
       create_reply = Inr (PDict [(''DBInstance'', PDict [(''DBInstanceStatus'', PStr ''creating'')])]),
       poll_reply = (\<lambda>n. if n < 2 then Poll_retry else Poll_success),
       describe_reply = Inr (PDict [(''DBInstances'',
          PList [PDict [(''Endpoint'', PDict [(''Address'', PStr ''db1.example''), (''Port'', PInt 5432)])]])]) \<rparr>"

definition world_create_denied :: world where
  "world_create_denied = world_ok\<lparr>create_reply := Inl (ClientError (error_response ''quota exceeded''))\<rparr>"

definition world_never_ready :: world where
  "world_never_ready = world_ok\<lparr>poll_reply := (\<lambda>n. Poll_retry)\<rparr>"

definition world_wait_denied :: world where
  "world_wait_denied = world_ok\<lparr>poll_reply := (\<lambda>n. Poll_raise (ClientError (error_response ''throttled'')))\<rparr>"

definition world_wait_broken :: world where
  "world_wait_broken = world_ok\<lparr>poll_reply := (\<lambda>n. Poll_raise (OtherError ''EndpointConnectionError''))\<rparr>"

definition world_wait_garbled :: world where
  "world_wait_garbled = world_ok\<lparr>poll_reply := (\<lambda>n. Poll_raise (ClientError (PStr ''gone'')))\<rparr>"


section \<open>Command lines without an identifier, or with a foreign engine\<close>

text \<open>
  A word names the identifier option: exactly, by an abbreviation, or with an attached
  value. A command line omits the identifier when none of its words, as the parser
  classifies them, does; the words after a \<^verbatim>\<open>--\<close> are positional and name no option.
\<close>

fun names_identifier :: "word_class \<Rightarrow> bool" where
  "names_identifier (Known a os sep ex) = (a = A_db_instance_identifier)"
| "names_identifier c = False"

definition omits_identifier :: "string list \<Rightarrow> bool" where
  "omits_identifier argv = list_all (\<lambda>(w, c). \<not> names_identifier c) (classify argv)"

text \<open>A word names the help option; a command line without any such word.\<close>

fun names_help :: "word_class \<Rightarrow> bool" where
  "names_help (Known a os sep ex) = (a = A_help)"
| "names_help c = False"

definition no_help_option :: "string list \<Rightarrow> bool" where
  "no_help_option argv = list_all (\<lambda>(w, c). \<not> names_help c) (classify argv)"

text \<open>
  A word names the engine option and the value given to it is not one of the choices: the
  attached value, or else the next word of the command line.
\<close>

fun engine_value_outside :: "word_class \<Rightarrow> string list \<Rightarrow> bool" where
  "engine_value_outside (Known a os sep (Some v)) ws = (a = A_engine \<and> v \<notin> set engine_choices)"
| "engine_value_outside (Known a os sep None) (v # ws) = (a = A_engine \<and> v \<notin> set engine_choices)"
| "engine_value_outside c ws = False"

text \<open>Some word before the first \<^verbatim>\<open>--\<close> gives the engine a value outside the choices.\<close>

fun engine_outside :: "string list \<Rightarrow> bool" where
  "engine_outside [] = False"
| "engine_outside (w # ws) =
     (w \<noteq> ''--'' \<and> (engine_value_outside (parse_optional w) ws \<or> engine_outside ws))"

text \<open>The same, and no word before that one names the help option.\<close>

fun engine_before_help :: "string list \<Rightarrow> bool" where
  "engine_before_help [] = False"
| "engine_before_help (w # ws) =
     (w \<noteq> ''--'' \<and> (engine_value_outside (parse_optional w) ws
                     \<or> (\<not> names_help (parse_optional w) \<and> engine_before_help ws)))"

text \<open>These properties on classified words, as the consuming loop sees them.\<close>

fun known_word :: "string \<times> word_class \<Rightarrow> bool" where
  "known_word (w, Known a os sep ex) = (map_of option_strings os = Some a)"
| "known_word (w, c) = True"

fun plain_word :: "string \<times> word_class \<Rightarrow> bool" where
  "plain_word (w, Known a os sep ex) = (a \<noteq> A_db_instance_identifier \<and> map_of option_strings os = Some a)"
| "plain_word (w, c) = True"

fun helpless_word :: "string \<times> word_class \<Rightarrow> bool" where
  "helpless_word (w, Known a os sep ex) = (a \<noteq> A_help \<and> map_of option_strings os = Some a)"
| "helpless_word (w, c) = True"

fun foreign_engine :: "(string \<times> word_class) list \<Rightarrow> bool" where
  "foreign_engine [] = False"
| "foreign_engine ((w, c) # rest) = (engine_value_outside c (map fst rest) \<or> foreign_engine rest)"

fun foreign_engine_first :: "(string \<times> word_class) list \<Rightarrow> bool" where
  "foreign_engine_first [] = False"
| "foreign_engine_first ((w, c) # rest) =
     (engine_value_outside c (map fst rest) \<or> (\<not> names_help c \<and> foreign_engine_first rest))"

section \<open>Properties of the request parameters\<close>

lemma map_of_build_params:
  "map_of (build_params a pw) k =
     (if k = ''DBSubnetGroupName'' \<and> truthy_str (db_subnet_group_name a)
      then Some (PStr (the (db_subnet_group_name a)))
      else if k = ''VpcSecurityGroupIds'' \<and> truthy_list (vpc_security_group_ids a)
      then Some (PList (map PStr (the (vpc_security_group_ids a))))
      else map_of (base_params a pw) k)"
  by (simp add: build_params_def Let_def update_conv')

lemma create_call_issued_once:
  "filter is_create_call (fst (create_db_instance w a)) =
     [Api_create_db_instance (build_params a (fst (password_of w a)))]"
  by (simp add: create_db_instance_def password_of_def on_client_error_def Let_def
      split: sum.splits prod.splits exn.splits)

text \<open>
  C10. The one create request of a call of \<^verbatim>\<open>create_db_instance\<close> carries the parameters
  built from the arguments. Among them \<^verbatim>\<open>StorageType\<close> is always \<^verbatim>\<open>"gp2"\<close>;
  \<^verbatim>\<open>VpcSecurityGroupIds\<close> and \<^verbatim>\<open>DBSubnetGroupName\<close> are present exactly when the
  corresponding argument was supplied and is not empty; identifier, storage, class, engine,
  user name, password, database name, MultiAZ, public accessibility and backup retention
  are always present, with the value of the argument.
\<close>

theorem create_request_parameter_set:
  "filter is_create_call (fst (create_db_instance w a)) =
     [Api_create_db_instance (build_params a (fst (password_of w a)))]
 \<and> map_of (build_params a pw) ''StorageType'' = Some (PStr ''gp2'')
 \<and> map_of (build_params a pw) ''VpcSecurityGroupIds'' =
      (if truthy_list (vpc_security_group_ids a)
       then Some (PList (map PStr (the (vpc_security_group_ids a)))) else None)
 \<and> map_of (build_params a pw) ''DBSubnetGroupName'' =
      (if truthy_str (db_subnet_group_name a)
       then Some (PStr (the (db_subnet_group_name a))) else None)
 \<and> map_of (build_params a pw) ''DBInstanceIdentifier'' = Some (opt_str (db_instance_identifier a))
 \<and> map_of (build_params a pw) ''AllocatedStorage'' = Some (PInt (allocated_storage a))
 \<and> map_of (build_params a pw) ''DBInstanceClass'' = Some (PStr (db_instance_class a))
 \<and> map_of (build_params a pw) ''Engine'' = Some (PStr (engine a))
 \<and> map_of (build_params a pw) ''MasterUsername'' = Some (PStr (master_username a))
 \<and> map_of (build_params a pw) ''MasterUserPassword'' = Some (PStr pw)
 \<and> map_of (build_params a pw) ''DBName'' = Some (PStr (db_name a))
 \<and> map_of (build_params a pw) ''MultiAZ'' = Some (PBool (multi_az a))
 \<and> map_of (build_params a pw) ''PubliclyAccessible'' = Some (PBool (publicly_accessible a))
 \<and> map_of (build_params a pw) ''BackupRetentionPeriod'' = Some (PInt (backup_retention_period a))"
proof -
  have k1: "map_of (build_params a pw) ''StorageType'' = Some (PStr ''gp2'')"
    by (simp add: map_of_build_params base_params_def)
  have k2: "map_of (build_params a pw) ''VpcSecurityGroupIds'' =
      (if truthy_list (vpc_security_group_ids a)
       then Some (PList (map PStr (the (vpc_security_group_ids a)))) else None)"
    by (simp add: map_of_build_params base_params_def)
  have k3: "map_of (build_params a pw) ''DBSubnetGroupName'' =
      (if truthy_str (db_subnet_group_name a)
       then Some (PStr (the (db_subnet_group_name a))) else None)"
    by (simp add: map_of_build_params base_params_def)
  have k4: "map_of (build_params a pw) ''DBInstanceIdentifier'' = Some (opt_str (db_instance_identifier a))"
    by (simp add: map_of_build_params base_params_def)
  have k5: "map_of (build_params a pw) ''AllocatedStorage'' = Some (PInt (allocated_storage a))"
    by (simp add: map_of_build_params base_params_def)
  have k6: "map_of (build_params a pw) ''DBInstanceClass'' = Some (PStr (db_instance_class a))"
    by (simp add: map_of_build_params base_params_def)
  have k7: "map_of (build_params a pw) ''Engine'' = Some (PStr (engine a))"
    by (simp add: map_of_build_params base_params_def)
  have k8: "map_of (build_params a pw) ''MasterUsername'' = Some (PStr (master_username a))"
    by (simp add: map_of_build_params base_params_def)
  have k9: "map_of (build_params a pw) ''MasterUserPassword'' = Some (PStr pw)"
    by (simp add: map_of_build_params base_params_def)
  have k10: "map_of (build_params a pw) ''DBName'' = Some (PStr (db_name a))"
    by (simp add: map_of_build_params base_params_def)
  have k11: "map_of (build_params a pw) ''MultiAZ'' = Some (PBool (multi_az a))"
    by (simp add: map_of_build_params base_params_def)
  have k12: "map_of (build_params a pw) ''PubliclyAccessible'' = Some (PBool (publicly_accessible a))"
    by (simp add: map_of_build_params base_params_def)
  have k13: "map_of (build_params a pw) ''BackupRetentionPeriod'' = Some (PInt (backup_retention_period a))"
    by (simp add: map_of_build_params base_params_def)
  from create_call_issued_once k1 k2 k3 k4 k5 k6 k7 k8 k9 k10 k11 k12 k13
  show ?thesis by blast
qed

section \<open>The three request functions, case by case\<close>

lemma bit_length_bounds: "0 < n \<Longrightarrow> 2 ^ (bit_length n - 1) \<le> n \<and> n < 2 ^ bit_length n"
proof (induction n rule: bit_length.induct)
  case (1 n)
  show ?case
  proof (cases "n div 2 \<le> 0")
    case True
    then have "n = 1" using 1(2) by auto
    then show ?thesis by (simp add: bit_length.simps)
  next
    case False
    then have ih: "2 ^ (bit_length (n div 2) - 1) \<le> n div 2 \<and> n div 2 < 2 ^ bit_length (n div 2)"
      using 1 by simp
    have pos: "0 < bit_length (n div 2)" using False by (subst bit_length.simps) simp
    have b: "bit_length n = Suc (bit_length (n div 2))" using 1(2) by (subst bit_length.simps) simp
    have "(2::int) ^ (bit_length n - 1) = 2 * 2 ^ (bit_length (n div 2) - 1)"
      using b pos by (cases "bit_length (n div 2)") simp_all
    moreover have "2 * (n div 2) \<le> n" by presburger
    ultimately have l: "2 ^ (bit_length n - 1) \<le> n" using ih by linarith
    have "n \<le> 2 * (n div 2) + 1" by presburger
    then have "n < 2 * 2 ^ bit_length (n div 2)" using ih by linarith
    then show ?thesis using l b by simp
  qed
qed

lemma round_half_even_exact: "0 < d \<Longrightarrow> round_half_even (q * d) d = q"
  by (simp add: round_half_even_def)

lemma float_exponent_small:
  assumes "0 < n" and "0 < d" and "n < d * 2 ^ 53"
  shows "float_exponent n d \<le> 52"
proof (rule ccontr)
  assume "\<not> float_exponent n d \<le> 52"
  then have e: "53 \<le> float_exponent n d" by simp
  define e0 where "e0 = int (bit_length n) - int (bit_length d)"
  define c where "c \<longleftrightarrow> (if 0 \<le> e0 then d * 2 ^ nat e0 \<le> n else d \<le> n * 2 ^ nat (- e0))"
  have fe: "float_exponent n d = (if c then e0 else e0 - 1)"
    unfolding float_exponent_def e0_def c_def Let_def by (rule refl)
  show False
  proof (cases c)
    case True
    then have e0: "53 \<le> e0" using e fe by simp
    then have "d * 2 ^ nat e0 \<le> n" using True by (simp add: c_def)
    moreover have "(2::int) ^ 53 \<le> 2 ^ nat e0" using e0 by (intro power_increasing) auto
    then have "d * 2 ^ 53 \<le> d * 2 ^ nat e0" using assms(2) by (intro mult_left_mono) auto
    ultimately show False using assms(3) by linarith
  next
    case False
    then have e0: "54 \<le> e0" using e fe by simp
    have bn: "2 ^ (bit_length n - 1) \<le> n" using bit_length_bounds [OF assms(1)] by simp
    have bd: "d < 2 ^ bit_length d" using bit_length_bounds [OF assms(2)] by simp
    have "bit_length d + 53 \<le> bit_length n - 1" using e0 by (simp add: e0_def)
    then have "(2::int) ^ (bit_length d + 53) \<le> 2 ^ (bit_length n - 1)"
      by (intro power_increasing) auto
    then have "2 ^ bit_length d * 2 ^ 53 \<le> n" using bn by (simp add: power_add)
    moreover have "d * 2 ^ 53 < 2 ^ bit_length d * (2::int) ^ 53" using bd by simp
    ultimately show False using assms(3) by linarith
  qed
qed

lemma int_of_truediv_exact:
  assumes "0 < d" and "\<bar>q\<bar> < 2 ^ 53"
  shows "int_of_truediv (q * d) d = Inr q"
proof (cases "q = 0")
  case True
  then show ?thesis using assms(1) by (simp add: int_of_truediv_def)
next
  case False
  define n where "n = \<bar>q * d\<bar>"
  have n: "n = \<bar>q\<bar> * d" using assms(1) by (simp add: n_def abs_mult)
  have np: "0 < n" using False assms(1) n by simp
  have "n < d * 2 ^ 53" using assms n by (simp add: mult.commute)
  then have e: "float_exponent n d \<le> 52" using float_exponent_small [OF np assms(1)] by simp
  define sh where "sh = max (float_exponent n d - 52) (- 1074)"
  have sh: "sh \<le> 0" using e by (simp add: sh_def)
  have s: "sgn (q * d) * sgn d = sgn q" using assms(1) by (simp add: sgn_mult)
  have ab: "sgn q * \<bar>q\<bar> = q" by (simp add: sgn_if)
  show ?thesis
  proof (cases "sh = 0")
    case True
    have "round_half_even n (d * 2 ^ nat sh) = \<bar>q\<bar>"
      using True n round_half_even_exact [OF assms(1), of "\<bar>q\<bar>"] by simp
    moreover have "\<bar>q\<bar> < 2 ^ 1024"
      using assms(2) by (rule less_trans) simp
    ultimately show ?thesis
      using True False assms(1) s ab
      by (simp add: int_of_truediv_def Let_def n_def [symmetric] sh_def [symmetric])
  next
    case neg: False
    then have lt: "sh < 0" using sh by simp
    have p: "0 < (2::int) ^ nat (- sh)" by simp
    have eq: "n * 2 ^ nat (- sh) = (\<bar>q\<bar> * 2 ^ nat (- sh)) * d" using n by (simp add: ac_simps)
    have "round_half_even (n * 2 ^ nat (- sh)) d = \<bar>q\<bar> * 2 ^ nat (- sh)"
      unfolding eq by (rule round_half_even_exact [OF assms(1)])
    then show ?thesis
      using lt False assms(1) s ab
      by (simp add: int_of_truediv_def Let_def n_def [symmetric] sh_def [symmetric])
  qed
qed

lemma int_of_truediv_minutes:
  "\<bar>tm\<bar> < 2 ^ 52 \<Longrightarrow> int_of_truediv (tm * 60) 30 = Inr (2 * tm)"
proof -
  assume "\<bar>tm\<bar> < 2 ^ 52"
  then have b: "\<bar>2 * tm\<bar> < 2 ^ 53" by simp
  have e: "tm * 60 = (2 * tm) * 30" by simp
  show ?thesis unfolding e by (rule int_of_truediv_exact [OF _ b]) simp
qed

lemma session_kwargs_eq:
  "(if truthy_str (region a) then AList.update ''region_name'' (PStr (the (region a))) [] else [])
   = (if truthy_str (region a) then [(''region_name'', PStr (the (region a)))] else [])"
  by simp

lemma create_db_instance_accepted:
  "create_accepted w st \<Longrightarrow>
   create_db_instance w a =
     (create_events w a @ [Print [PStr ''Create call accepted, status:'', st]], Inr True)"
  by (auto simp: create_accepted_def create_db_instance_def create_events_def Let_def
      split: sum.splits prod.splits)

lemma create_db_instance_client_error:
  "create_reply w = Inl (ClientError r) \<Longrightarrow> py_get2 r ''Error'' ''Message'' = Inr m \<Longrightarrow>
   create_db_instance w a =
     (create_events w a @ [Print [PStr ''Error creating DB instance:'', m]], Inr False)"
  by (auto simp: create_db_instance_def create_events_def on_client_error_def Let_def
      split: sum.splits prod.splits)

lemma create_db_instance_raises:
  "create_reply w = Inl e \<Longrightarrow> snd (create_db_instance w a) \<noteq> Inr True"
  by (auto simp: create_db_instance_def on_client_error_def Let_def
      split: sum.splits prod.splits exn.splits)

lemma int_of_truediv_1800: "int_of_truediv 1800 30 = Inr 60"
  using int_of_truediv_minutes [of 30] by simp

lemma int_of_truediv_error: "int_of_truediv a b = Inl e \<Longrightarrow> \<exists>s. e = OtherError s"
  by (auto simp: int_of_truediv_def Let_def split: if_splits)

lemma wait_handlers_events:
  "\<exists>tail. fst (wait_handlers ev r) = ev @ tail \<and> (tail = [] \<or> (\<exists>vs. tail = [Print vs]))"
  by (auto simp: wait_handlers_def on_client_error_def split: sum.splits exn.splits prod.splits)

lemma wait_for_available_30:
  "wait_for_available w (opt_str (db_instance_identifier a)) 30 =
     (case wait_result w a of
        (ev', Inr u) \<Rightarrow> (wait_events w a, Inr True)
      | (ev', Inl (WaiterError m)) \<Rightarrow>
          (wait_events w a @ [Print [PStr ''Timed out waiting for DB to become available:'', PStr m]], Inr False)
      | (ev', Inl e) \<Rightarrow>
          (case on_client_error ''Error while waiting:'' e of
             (ev'', Inl e') \<Rightarrow> (wait_events w a @ ev'', Inl e')
           | (ev'', Inr u) \<Rightarrow> (wait_events w a @ ev'', Inr False)))"
  by (simp add: wait_for_available_def wait_handlers_def wait_events_def wait_result_def Let_def
      int_of_truediv_1800 split: sum.splits prod.splits exn.splits)

lemma consume_exit:
  "consume ws ns xs = Parser_exit n ev \<Longrightarrow>
   (n = 2 \<and> (\<exists>m. ev = [Print_usage_error m])) \<or> (n = 0 \<and> ev = [Print_help])"
proof (induction ws ns xs rule: consume.induct)
  case (1 ns extras)
  then show ?case by (auto simp: finish_def split: if_splits)
next
  case (2 w c rest ns extras)
  then show ?case
    by (cases c) (auto split: sum.splits prod.splits step.splits)
qed

lemma parse_args_exit:
  "parse_args argv = Parser_exit n ev \<Longrightarrow>
   (n = 2 \<and> (\<exists>m. ev = [Print_usage_error m])) \<or> (n = 0 \<and> ev = [Print_help])"
  by (auto simp: parse_args_def Let_def split: if_splits dest: consume_exit)

lemma main_parsed: "parse_args argv = Parsed a \<Longrightarrow> main w argv = main_from_args w a"
  by (simp add: main_def)

lemma main_from_args_codes: "exit_code (snd (main_from_args w a)) \<in> {0, 1, 2}"
  by (simp add: main_from_args_def Let_def split: prod.splits sum.splits bool.splits)

lemma main_codes: "exit_code (snd (main w argv)) \<in> {0, 1, 2}"
proof (cases "parse_args argv")
  case (Parsed a)
  then show ?thesis using main_from_args_codes [of w a] by (simp add: main_def)
next
  case (Parser_exit n ev)
  then show ?thesis using parse_args_exit [OF Parser_exit] by (auto simp: main_def)
qed

lemma main_from_args_create_failed:
  "snd (create_db_instance w a) \<noteq> Inr True \<Longrightarrow>
   fst (main_from_args w a) = session_events a @ fst (create_db_instance w a)
   \<and> exit_code (snd (main_from_args w a)) = 1"
  by (auto simp: main_from_args_def session_events_def Let_def split: prod.splits sum.splits bool.splits)

lemma main_from_args_accepted:
  "create_accepted w st \<Longrightarrow>
   main_from_args w a =
     (case wait_for_available w (opt_str (db_instance_identifier a)) 30 of
        (ev2, Inl e) \<Rightarrow> (session_events a @ create_events w a @ [Print [PStr ''Create call accepted, status:'', st]] @ ev2, Uncaught e)
      | (ev2, Inr False) \<Rightarrow> (session_events a @ create_events w a @ [Print [PStr ''Create call accepted, status:'', st]] @ ev2, Sys_exit 2)
      | (ev2, Inr True) \<Rightarrow>
          (case describe_endpoint w (opt_str (db_instance_identifier a)) of
             (ev3, Inl e) \<Rightarrow> (session_events a @ create_events w a @ [Print [PStr ''Create call accepted, status:'', st]] @ ev2 @ ev3, Uncaught e)
           | (ev3, Inr r) \<Rightarrow> (session_events a @ create_events w a @ [Print [PStr ''Create call accepted, status:'', st]] @ ev2 @ ev3, Returned)))"
  by (simp add: main_from_args_def create_db_instance_accepted session_events_def Let_def
      split: prod.splits sum.splits bool.splits)

lemma wait_timed_out:
  "snd (wait_result w a) = Inl (WaiterError m) \<Longrightarrow>
   wait_for_available w (opt_str (db_instance_identifier a)) 30 =
     (wait_events w a @ [Print [PStr ''Timed out waiting for DB to become available:'', PStr m]], Inr False)"
  by (cases "wait_result w a") (simp add: wait_for_available_30)

lemma wait_client_error:
  "snd (wait_result w a) = Inl (ClientError r) \<Longrightarrow> py_get2 r ''Error'' ''Message'' = Inr msg \<Longrightarrow>
   wait_for_available w (opt_str (db_instance_identifier a)) 30 =
     (wait_events w a @ [Print [PStr ''Error while waiting:'', msg]], Inr False)"
  by (cases "wait_result w a") (simp add: wait_for_available_30 on_client_error_def)

lemma wait_ok:
  "snd (wait_result w a) = Inr u \<Longrightarrow>
   wait_for_available w (opt_str (db_instance_identifier a)) 30 = (wait_events w a, Inr True)"
  by (cases "wait_result w a") (simp add: wait_for_available_30)

lemma describe_ok:
  "describe_reply w = Inr resp \<Longrightarrow> endpoint_of resp = Inr (addr, port) \<Longrightarrow>
   describe_endpoint w i =
     ([Api_describe_db_instances i, Print [PStr ''DB instance available.''],
       Print [PStr ''Endpoint:'', addr], Print [PStr ''Port:'', port]], Inr (addr, port))"
  by (simp add: describe_endpoint_def Let_def)


section \<open>Facts about the example runs\<close>

lemma parse_example: "parse_args example_argv = Parsed example_args"
  by code_simp

lemma error_response_message: "py_get2 (error_response m) ''Error'' ''Message'' = Inr (PStr m)"
  by (simp add: error_response_def py_get2_def)

lemma waiter_never_ready:
  "(\<And>k. poll_reply w k = Poll_retry) \<Longrightarrow>
   snd (waiter_wait w i d m n) = Inl (WaiterError ''Max attempts exceeded'')"
proof (induction w i d m n rule: waiter_wait.induct)
  case (1 w ident delay max_attempts n)
  show ?case
    using 1 by (subst waiter_wait.simps) (auto split: prod.splits)
qed

lemma world_ok_accepted: "create_accepted world_ok (PStr ''creating'')"
  by (simp add: create_accepted_def world_ok_def py_get2_def)

lemma world_ok_wait: "snd (wait_result world_ok a) = Inr ()"
  by (simp add: wait_result_def world_ok_def waiter_wait.simps)

lemma world_ok_endpoint:
  "describe_reply world_ok = Inr (PDict [(''DBInstances'',
          PList [PDict [(''Endpoint'', PDict [(''Address'', PStr ''db1.example''), (''Port'', PInt 5432)])]])])"
  by (simp add: world_ok_def)

lemma world_never_ready_wait:
  "snd (wait_result world_never_ready a) = Inl (WaiterError ''Max attempts exceeded'')"
  unfolding wait_result_def by (rule waiter_never_ready) (simp add: world_never_ready_def)

lemma world_wait_denied_wait:
  "snd (wait_result world_wait_denied a) = Inl (ClientError (error_response ''throttled''))"
  by (simp add: wait_result_def world_wait_denied_def waiter_wait.simps)

section \<open>Exit codes\<close>

lemma wait_other_error:
  "snd (wait_result w a) = Inl (OtherError x) \<Longrightarrow>
   wait_for_available w (opt_str (db_instance_identifier a)) 30 = (wait_events w a, Inl (OtherError x))"
  by (cases "wait_result w a") (simp add: wait_for_available_30 on_client_error_def)

lemma wait_client_error_unreadable:
  "snd (wait_result w a) = Inl (ClientError r) \<Longrightarrow> py_get2 r ''Error'' ''Message'' = Inl e' \<Longrightarrow>
   wait_for_available w (opt_str (db_instance_identifier a)) 30 = (wait_events w a, Inl e')"
  by (cases "wait_result w a") (simp add: wait_for_available_30 on_client_error_def)

lemma world_wait_broken_wait:
  "snd (wait_result world_wait_broken a) = Inl (OtherError ''EndpointConnectionError'')"
  by (simp add: wait_result_def world_wait_broken_def waiter_wait.simps)

text \<open>
  C1, as the claim states it: the exit status is 2 whenever the wait fails. It fails when
  the wait ends with an exception that is neither a \<^verbatim>\<open>WaiterError\<close> nor a
  \<^verbatim>\<open>ClientError\<close> (a connection error of the SDK, say): no \<^verbatim>\<open>except\<close> clause of
  \<^verbatim>\<open>wait_for_available\<close> catches it, and the process ends with status 1.
\<close>

theorem uncaught_wait_failure_exits_1:
  "parse_args example_argv = Parsed example_args
 \<and> create_accepted world_wait_broken (PStr ''creating'')
 \<and> snd (wait_result world_wait_broken example_args) = Inl (OtherError ''EndpointConnectionError'')
 \<and> snd (main world_wait_broken example_argv) = Uncaught (OtherError ''EndpointConnectionError'')
 \<and> exit_code (snd (main world_wait_broken example_argv)) = 1"
proof -
  have a: "create_accepted world_wait_broken (PStr ''creating'')"
    by (simp add: create_accepted_def world_wait_broken_def world_ok_def py_get2_def)
  have m: "main world_wait_broken example_argv = main_from_args world_wait_broken example_args"
    using parse_example by (rule main_parsed)
  have "snd (main_from_args world_wait_broken example_args) = Uncaught (OtherError ''EndpointConnectionError'')"
    using main_from_args_accepted [OF a, of example_args] wait_other_error [OF world_wait_broken_wait, of example_args]
    by simp
  then show ?thesis using parse_example a world_wait_broken_wait [of example_args] m by simp
qed

text \<open>
  C1, amended. Every run ends with exit status 0, 1 or 2. With a parsed command line the
  status is 1 when the create request fails (whatever exception the request raises);
  2 when the create request is accepted and the wait times out or fails with a
  \<^verbatim>\<open>WaiterError\<close>, or fails with a provider \<^verbatim>\<open>ClientError\<close> whose message can be read;
  1 when the wait ends with an exception of any other class, or with a
  \<^verbatim>\<open>ClientError\<close> whose message cannot be read, neither of which is caught; and 0 when
  create, wait and describe all complete.
\<close>

theorem main_exit_codes:
  "exit_code (snd (main w argv)) \<in> {0, 1, 2}
 \<and> (parse_args argv = Parsed a \<and> create_reply w = Inl e
      \<longrightarrow> exit_code (snd (main w argv)) = 1)
 \<and> (parse_args argv = Parsed a \<and> create_accepted w st
      \<and> snd (wait_result w a) = Inl (WaiterError m)
      \<longrightarrow> exit_code (snd (main w argv)) = 2)
 \<and> (parse_args argv = Parsed a \<and> create_accepted w st
      \<and> snd (wait_result w a) = Inl (ClientError r) \<and> py_get2 r ''Error'' ''Message'' = Inr msg
      \<longrightarrow> exit_code (snd (main w argv)) = 2)
 \<and> (parse_args argv = Parsed a \<and> create_accepted w st
      \<and> snd (wait_result w a) = Inl (OtherError x)
      \<longrightarrow> exit_code (snd (main w argv)) = 1)
 \<and> (parse_args argv = Parsed a \<and> create_accepted w st
      \<and> snd (wait_result w a) = Inl (ClientError r) \<and> py_get2 r ''Error'' ''Message'' = Inl e'
      \<longrightarrow> exit_code (snd (main w argv)) = 1)
 \<and> (parse_args argv = Parsed a \<and> create_accepted w st
      \<and> snd (wait_result w a) = Inr () \<and> describe_reply w = Inr resp
      \<and> endpoint_of resp = Inr (addr, port)
      \<longrightarrow> exit_code (snd (main w argv)) = 0)"
proof (intro conjI impI)
  show "exit_code (snd (main w argv)) \<in> {0, 1, 2}" by (rule main_codes)
next
  assume h: "parse_args argv = Parsed a \<and> create_reply w = Inl e"
  then have "snd (create_db_instance w a) \<noteq> Inr True" by (simp add: create_db_instance_raises)
  from main_from_args_create_failed [OF this] h
  show "exit_code (snd (main w argv)) = 1" by (simp add: main_parsed)
next
  assume h: "parse_args argv = Parsed a \<and> create_accepted w st
      \<and> snd (wait_result w a) = Inl (WaiterError m)"
  then have "main w argv = main_from_args w a" and acc: "create_accepted w st"
    and wt: "snd (wait_result w a) = Inl (WaiterError m)" by (simp_all add: main_parsed)
  then show "exit_code (snd (main w argv)) = 2"
    using main_from_args_accepted [OF acc, of a] wait_timed_out [OF wt] by simp
next
  assume h: "parse_args argv = Parsed a \<and> create_accepted w st
      \<and> snd (wait_result w a) = Inl (ClientError r) \<and> py_get2 r ''Error'' ''Message'' = Inr msg"
  then have "main w argv = main_from_args w a" and acc: "create_accepted w st"
    and wt: "snd (wait_result w a) = Inl (ClientError r)"
    and ms: "py_get2 r ''Error'' ''Message'' = Inr msg" by (simp_all add: main_parsed)
  then show "exit_code (snd (main w argv)) = 2"
    using main_from_args_accepted [OF acc, of a] wait_client_error [OF wt ms] by simp
next
  assume h: "parse_args argv = Parsed a \<and> create_accepted w st
      \<and> snd (wait_result w a) = Inl (OtherError x)"
  then have "main w argv = main_from_args w a" and acc: "create_accepted w st"
    and wt: "snd (wait_result w a) = Inl (OtherError x)" by (simp_all add: main_parsed)
  then show "exit_code (snd (main w argv)) = 1"
    using main_from_args_accepted [OF acc, of a] wait_other_error [OF wt] by simp
next
  assume h: "parse_args argv = Parsed a \<and> create_accepted w st
      \<and> snd (wait_result w a) = Inl (ClientError r) \<and> py_get2 r ''Error'' ''Message'' = Inl e'"
  then have "main w argv = main_from_args w a" and acc: "create_accepted w st"
    and wt: "snd (wait_result w a) = Inl (ClientError r)"
    and ms: "py_get2 r ''Error'' ''Message'' = Inl e'" by (simp_all add: main_parsed)
  then show "exit_code (snd (main w argv)) = 1"
    using main_from_args_accepted [OF acc, of a] wait_client_error_unreadable [OF wt ms] by simp
next
  assume h: "parse_args argv = Parsed a \<and> create_accepted w st
      \<and> snd (wait_result w a) = Inr () \<and> describe_reply w = Inr resp
      \<and> endpoint_of resp = Inr (addr, port)"
  then have "main w argv = main_from_args w a" and acc: "create_accepted w st"
    and wt: "snd (wait_result w a) = Inr ()" and dr: "describe_reply w = Inr resp"
    and ep: "endpoint_of resp = Inr (addr, port)" by (simp_all add: main_parsed)
  then show "exit_code (snd (main w argv)) = 0"
    using main_from_args_accepted [OF acc, of a] wait_ok [OF wt]
      describe_ok [OF dr ep, of "opt_str (db_instance_identifier a)"] by simp
qed

theorem main_exit_codes_witness:
  "exit_code (snd (main world_create_denied example_argv)) = 1
 \<and> exit_code (snd (main world_never_ready example_argv)) = 2
 \<and> exit_code (snd (main world_wait_denied example_argv)) = 2
 \<and> exit_code (snd (main world_ok example_argv)) = 0
 \<and> exit_code (snd (main world_wait_broken example_argv)) = 1
 \<and> exit_code (snd (main world_wait_garbled example_argv)) = 1"
proof (intro conjI)
  have c: "create_reply world_create_denied = Inl (ClientError (error_response ''quota exceeded''))"
    by (simp add: world_create_denied_def)
  from main_exit_codes [of world_create_denied example_argv example_args] parse_example c
  show "exit_code (snd (main world_create_denied example_argv)) = 1" by blast
next
  have a: "create_accepted world_never_ready (PStr ''creating'')"
    by (simp add: create_accepted_def world_never_ready_def world_ok_def py_get2_def)
  from main_exit_codes [of world_never_ready example_argv example_args] parse_example a
    world_never_ready_wait [of example_args]
  show "exit_code (snd (main world_never_ready example_argv)) = 2" by blast
next
  have a: "create_accepted world_wait_denied (PStr ''creating'')"
    by (simp add: create_accepted_def world_wait_denied_def world_ok_def py_get2_def)
  from main_exit_codes [of world_wait_denied example_argv example_args] parse_example a
    world_wait_denied_wait [of example_args] error_response_message [of "''throttled''"]
  show "exit_code (snd (main world_wait_denied example_argv)) = 2" by blast
next
  have e: "endpoint_of (PDict [(''DBInstances'',
          PList [PDict [(''Endpoint'', PDict [(''Address'', PStr ''db1.example''), (''Port'', PInt 5432)])]])])
        = Inr (PStr ''db1.example'', PInt 5432)"
    by (simp add: endpoint_of_def)
  from main_exit_codes [of world_ok example_argv example_args] parse_example world_ok_accepted
    world_ok_wait [of example_args] world_ok_endpoint e
  show "exit_code (snd (main world_ok example_argv)) = 0" by blast
next
  have a: "create_accepted world_wait_broken (PStr ''creating'')"
    by (simp add: create_accepted_def world_wait_broken_def world_ok_def py_get2_def)
  from main_exit_codes [of world_wait_broken example_argv example_args] parse_example a
    world_wait_broken_wait [of example_args]
  show "exit_code (snd (main world_wait_broken example_argv)) = 1" by blast
next
  have a: "create_accepted world_wait_garbled (PStr ''creating'')"
    by (simp add: create_accepted_def world_wait_garbled_def world_ok_def py_get2_def)
  have wt: "snd (wait_result world_wait_garbled example_args) = Inl (ClientError (PStr ''gone''))"
    by (simp add: wait_result_def world_wait_garbled_def waiter_wait.simps)
  have g: "py_get2 (PStr ''gone'') ''Error'' ''Message'' = Inl (OtherError ''AttributeError'')"
    by (simp add: py_get2_def)
  from main_exit_codes [of world_wait_garbled example_argv example_args] parse_example a wt g
  show "exit_code (snd (main world_wait_garbled example_argv)) = 1" by blast
qed

lemma create_events_no_wait: "filter is_wait_call (create_events w a) = []"
  by (simp add: create_events_def password_of_def)

lemma create_events_no_describe: "filter is_describe_call (create_events w a) = []"
  by (simp add: create_events_def password_of_def)

lemma session_events_no_wait: "filter is_wait_call (session_events a) = []"
  by (simp add: session_events_def)

lemma session_events_no_describe: "filter is_describe_call (session_events a) = []"
  by (simp add: session_events_def)

section \<open>A provider error on creation\<close>

text \<open>
  C2. When the command line parses and the provider answers the create request with a
  client error whose message is \<open>m\<close>, the run is exactly: the session and the client, the
  events of the create request, the line \<^verbatim>\<open>Error creating DB instance: m\<close>; then the
  process exits with status 1. Nothing follows the failed request: no waiter, no status
  check, no describe request.
\<close>

theorem create_client_error_stops_run:
  assumes "parse_args argv = Parsed a"
    and "create_reply w = Inl (ClientError r)"
    and "py_get2 r ''Error'' ''Message'' = Inr m"
  shows "main w argv =
           (session_events a @ create_events w a @ [Print [PStr ''Error creating DB instance:'', m]],
            Sys_exit 1)
       \<and> filter is_wait_call (fst (main w argv)) = []
       \<and> filter is_describe_call (fst (main w argv)) = []
       \<and> last (fst (main w argv)) = Print [PStr ''Error creating DB instance:'', m]
       \<and> length (filter is_provider_call (fst (main w argv))) = 3"
proof -
  have c: "create_db_instance w a =
     (create_events w a @ [Print [PStr ''Error creating DB instance:'', m]], Inr False)"
    using assms(2,3) by (rule create_db_instance_client_error)
  have m: "main w argv =
           (session_events a @ create_events w a @ [Print [PStr ''Error creating DB instance:'', m]],
            Sys_exit 1)"
    using assms(1) c by (simp add: main_def main_from_args_def session_events_def Let_def)
  have p: "length (filter is_provider_call (session_events a @ create_events w a)) = 3"
    by (simp add: session_events_def create_events_def password_of_def)
  show ?thesis
    using p by (simp add: m create_events_no_wait create_events_no_describe
        session_events_no_wait session_events_no_describe)
qed

theorem create_client_error_stops_run_witness:
  "main world_create_denied example_argv =
     (session_events example_args @ create_events world_create_denied example_args
        @ [Print [PStr ''Error creating DB instance:'', PStr ''quota exceeded'']], Sys_exit 1)
   \<and> filter is_wait_call (fst (main world_create_denied example_argv)) = []"
proof -
  have c: "create_reply world_create_denied = Inl (ClientError (error_response ''quota exceeded''))"
    by (simp add: world_create_denied_def)
  from create_client_error_stops_run [OF parse_example c error_response_message]
  show ?thesis by blast
qed

section \<open>The endpoint\<close>

text \<open>
  C6. When the create request is accepted, the wait succeeds and the describe request
  returns a list whose first instance has the endpoint address \<open>addr\<close> and port \<open>port\<close>,
  the run ends with the describe request followed by the three printed lines
  \<^verbatim>\<open>DB instance available.\<close>, \<^verbatim>\<open>Endpoint: addr\<close> and \<^verbatim>\<open>Port: port\<close>, and \<^verbatim>\<open>main\<close>
  returns: exit status 0.
\<close>

theorem success_prints_endpoint:
  assumes "parse_args argv = Parsed a"
    and "create_accepted w st"
    and "snd (wait_result w a) = Inr ()"
    and "describe_reply w = Inr (PDict d)"
    and "map_of d ''DBInstances'' = Some (PList (PDict inst # others))"
    and "map_of inst ''Endpoint'' = Some (PDict ep)"
    and "map_of ep ''Address'' = Some addr"
    and "map_of ep ''Port'' = Some port"
  shows "main w argv =
           (session_events a @ create_events w a
              @ [Print [PStr ''Create call accepted, status:'', st]]
              @ wait_events w a
              @ [Api_describe_db_instances (opt_str (db_instance_identifier a)),
                 Print [PStr ''DB instance available.''],
                 Print [PStr ''Endpoint:'', addr],
                 Print [PStr ''Port:'', port]],
            Returned)
       \<and> exit_code (snd (main w argv)) = 0"
proof -
  have e: "endpoint_of (PDict d) = Inr (addr, port)"
    using assms(5-8) by (simp add: endpoint_of_def)
  show ?thesis
    using main_from_args_accepted [OF assms(2), of a] wait_ok [OF assms(3)]
      describe_ok [OF assms(4) e, of "opt_str (db_instance_identifier a)"] assms(1)
    by (simp add: main_parsed)
qed

theorem success_prints_endpoint_witness:
  "main world_ok example_argv =
     (session_events example_args @ create_events world_ok example_args
        @ [Print [PStr ''Create call accepted, status:'', PStr ''creating'']]
        @ wait_events world_ok example_args
        @ [Api_describe_db_instances (opt_str (db_instance_identifier example_args)),
           Print [PStr ''DB instance available.''],
           Print [PStr ''Endpoint:'', PStr ''db1.example''],
           Print [PStr ''Port:'', PInt 5432]],
      Returned)"
proof -
  have i: "map_of [(''DBInstances'',
          PList [PDict [(''Endpoint'', PDict [(''Address'', PStr ''db1.example''), (''Port'', PInt 5432)])]])]
          ''DBInstances''
        = Some (PList (PDict [(''Endpoint'', PDict [(''Address'', PStr ''db1.example''), (''Port'', PInt 5432)])] # []))"
    by simp
  have e: "map_of [(''Endpoint'', PDict [(''Address'', PStr ''db1.example''), (''Port'', PInt 5432)])] ''Endpoint''
        = Some (PDict [(''Address'', PStr ''db1.example''), (''Port'', PInt 5432)])"
    by simp
  have ad: "map_of [(''Address'', PStr ''db1.example''), (''Port'', PInt 5432)] ''Address'' = Some (PStr ''db1.example'')"
    by simp
  have po: "map_of [(''Address'', PStr ''db1.example''), (''Port'', PInt 5432)] ''Port'' = Some (PInt 5432)"
    by simp
  from success_prints_endpoint [OF parse_example world_ok_accepted world_ok_wait world_ok_endpoint i e ad po]
  show ?thesis by simp
qed

section \<open>A provider error on the final describe request\<close>



section \<open>The waiter\<close>

lemma waiter_checks_bounded:
  "length (filter is_status_check (fst (waiter_wait w i d m n))) \<le> nat (max 1 (m - int n))"
proof (induction w i d m n rule: waiter_wait.induct)
  case (1 w ident delay max_attempts n)
  show ?case
  proof (cases "poll_reply w n = Poll_retry \<and> \<not> max_attempts \<le> int (Suc n)")
    case True
    then have ih: "length (filter is_status_check (fst (waiter_wait w ident delay max_attempts (Suc n))))
        \<le> nat (max 1 (max_attempts - int (Suc n)))"
      using 1 by simp
    obtain ev r where e: "waiter_wait w ident delay max_attempts (Suc n) = (ev, r)"
      by (cases "waiter_wait w ident delay max_attempts (Suc n)")
    have "fst (waiter_wait w ident delay max_attempts n) = Api_status_check ident # Sleep delay # ev"
      using True e by (subst waiter_wait.simps) simp
    then show ?thesis using ih e True by (simp, arith)
  next
    case False
    then show ?thesis
      by (subst waiter_wait.simps) (auto split: poll_result.splits)
  qed
qed

lemma waiter_sleeps:
  "\<forall>e \<in> set (fst (waiter_wait w i d m n)). e = Api_status_check i \<or> e = Sleep d"
proof (induction w i d m n rule: waiter_wait.induct)
  case (1 w ident delay max_attempts n)
  show ?case
    using 1 by (subst waiter_wait.simps) (auto split: poll_result.splits prod.splits)
qed

lemma waiter_no_create: "filter is_create_call (fst (waiter_wait w i d m n)) = []"
  using waiter_sleeps [of w i d m n] by (auto simp: filter_empty_conv)

lemma waiter_no_describe: "filter is_describe_call (fst (waiter_wait w i d m n)) = []"
  using waiter_sleeps [of w i d m n] by (auto simp: filter_empty_conv)

lemma wait_for_available_events:
  assumes "int_of_truediv (tm * 60) 30 = Inr ma"
  shows "\<exists>tail. fst (wait_for_available w i tm) =
     [Get_waiter ''db_instance_available'', Clock_read,
      Print [PStr ''Waiting for DB instance to become available (this may take several minutes)...''],
      Waiter_wait i [(''Delay'', PInt 30), (''MaxAttempts'', PInt ma)]]
     @ fst (waiter_wait w i 30 ma 0) @ tail
   \<and> (tail = [] \<or> (\<exists>vs. tail = [Print vs]))"
proof -
  obtain ev' r where wr: "waiter_wait w i 30 ma 0 = (ev', r)" by (cases "waiter_wait w i 30 ma 0")
  show ?thesis
    using wait_handlers_events
      [of "[Get_waiter ''db_instance_available'', Clock_read,
            Print [PStr ''Waiting for DB instance to become available (this may take several minutes)...'']]
           @ [Waiter_wait i [(''Delay'', PInt 30), (''MaxAttempts'', PInt ma)]] @ ev'" r]
    by (auto simp: wait_for_available_def Let_def assms wr)
qed

lemma wait_for_available_overflow:
  assumes "int_of_truediv (tm * 60) 30 = Inl e"
  shows "wait_for_available w i tm =
     ([Get_waiter ''db_instance_available'', Clock_read,
       Print [PStr ''Waiting for DB instance to become available (this may take several minutes)...'']],
      Inl e)"
  using int_of_truediv_error [OF assms]
  by (auto simp: wait_for_available_def wait_handlers_def on_client_error_def Let_def assms)

section \<open>Counting the requests of a run\<close>

lemma on_client_error_events:
  "fst (on_client_error l e) = [] \<or> (\<exists>vs. fst (on_client_error l e) = [Print vs])"
  by (auto simp: on_client_error_def split: exn.splits sum.splits)

lemma create_db_instance_events:
  "\<exists>vs. fst (create_db_instance w a) = create_events w a \<or>
        fst (create_db_instance w a) = create_events w a @ [Print vs]"
  by (auto simp: create_db_instance_def create_events_def password_of_def on_client_error_def Let_def
      split: sum.splits prod.splits exn.splits)

lemma describe_endpoint_events:
  "fst (describe_endpoint w i) = [Api_describe_db_instances i]
 \<or> (\<exists>v. fst (describe_endpoint w i) = [Api_describe_db_instances i, Print v])
 \<or> (\<exists>a b c. fst (describe_endpoint w i) = [Api_describe_db_instances i, Print a, Print b, Print c])"
  by (auto simp: describe_endpoint_def on_client_error_def Let_def
      split: sum.splits prod.splits exn.splits)

lemma create_counts:
  "length (filter is_create_call (fst (create_db_instance w a))) = 1"
  "filter is_wait_start (fst (create_db_instance w a)) = []"
  "filter is_status_check (fst (create_db_instance w a)) = []"
  "filter is_describe_call (fst (create_db_instance w a)) = []"
  using create_db_instance_events [of w a]
  by (auto simp: create_events_def password_of_def)

lemma describe_counts:
  "filter is_create_call (fst (describe_endpoint w i)) = []"
  "filter is_wait_start (fst (describe_endpoint w i)) = []"
  "filter is_status_check (fst (describe_endpoint w i)) = []"
  "length (filter is_describe_call (fst (describe_endpoint w i))) = 1"
  using describe_endpoint_events [of w i]
  by auto

lemma waiter_no_wait_start: "filter is_wait_start (fst (waiter_wait w i d m n)) = []"
  using waiter_sleeps [of w i d m n] by (auto simp: filter_empty_conv)

lemma wait_counts:
  "filter is_create_call (fst (wait_for_available w i tm)) = []"
  "length (filter is_wait_start (fst (wait_for_available w i tm))) \<le> 1"
  "filter is_describe_call (fst (wait_for_available w i tm)) = []"
proof -
  show "filter is_create_call (fst (wait_for_available w i tm)) = []"
    using wait_for_available_events [of tm _ w i] wait_for_available_overflow [of tm _ w i]
    by (cases "int_of_truediv (tm * 60) 30") (auto simp: waiter_no_create)
  show "length (filter is_wait_start (fst (wait_for_available w i tm))) \<le> 1"
    using wait_for_available_events [of tm _ w i] wait_for_available_overflow [of tm _ w i]
    by (cases "int_of_truediv (tm * 60) 30") (auto simp: waiter_no_wait_start)
  show "filter is_describe_call (fst (wait_for_available w i tm)) = []"
    using wait_for_available_events [of tm _ w i] wait_for_available_overflow [of tm _ w i]
    by (cases "int_of_truediv (tm * 60) 30") (auto simp: waiter_no_describe)
qed

lemma wait_checks:
  assumes "int_of_truediv (tm * 60) 30 = Inr ma"
  shows "length (filter is_status_check (fst (wait_for_available w i tm))) \<le> nat (max 1 ma)"
  using wait_for_available_events [OF assms, of w i] waiter_checks_bounded [of w i 30 ma 0]
  by auto

lemma wait_checks_30:
  "length (filter is_status_check (fst (wait_for_available w i 30))) \<le> 60"
  using wait_checks [of 30 60 w i] int_of_truediv_1800 by simp

lemma session_counts:
  "filter is_create_call (session_events a) = []"
  "filter is_wait_start (session_events a) = []"
  "filter is_status_check (session_events a) = []"
  by (simp_all add: session_events_def)

lemma main_from_args_events:
  "fst (main_from_args w a) = session_events a @ fst (create_db_instance w a)
 \<or> fst (main_from_args w a) = session_events a @ fst (create_db_instance w a)
      @ fst (wait_for_available w (opt_str (db_instance_identifier a)) 30)
 \<or> fst (main_from_args w a) = session_events a @ fst (create_db_instance w a)
      @ fst (wait_for_available w (opt_str (db_instance_identifier a)) 30)
      @ fst (describe_endpoint w (opt_str (db_instance_identifier a)))"
  by (simp add: main_from_args_def session_events_def Let_def split: prod.splits sum.splits bool.splits)

lemma main_from_args_counts:
  "length (filter is_create_call (fst (main_from_args w a))) = 1"
  "length (filter is_wait_start (fst (main_from_args w a))) \<le> 1"
  "length (filter is_status_check (fst (main_from_args w a))) \<le> 60"
  "length (filter is_describe_call (fst (main_from_args w a))) \<le> 1"
  using main_from_args_events [of w a]
    wait_counts [of w "opt_str (db_instance_identifier a)" 30]
    wait_checks_30 [of w "opt_str (db_instance_identifier a)"]
    create_counts [of w a] describe_counts [of w "opt_str (db_instance_identifier a)"]
  by (auto simp: session_counts session_events_no_describe)

lemma main_parser_exit_events:
  "parse_args argv = Parser_exit n ev \<Longrightarrow>
   fst (main w argv) = ev \<and> filter is_provider_call ev = []"
  by (auto simp: main_def dest: parse_args_exit)

lemma main_counts:
  "length (filter is_create_call (fst (main w argv))) \<le> 1"
  "length (filter is_wait_start (fst (main w argv))) \<le> 1"
  "length (filter is_status_check (fst (main w argv))) \<le> 60"
  "length (filter is_describe_call (fst (main w argv))) \<le> 1"
  using main_from_args_counts [of w] parse_args_exit [of argv]
  by (cases "parse_args argv"; auto simp: main_def)+

section \<open>The wait is bounded\<close>

text \<open>
  C7, as the claim states it: the wait ends after at most \<open>timeout_minutes * 60 / 30\<close>
  status checks. It fails for a timeout of zero minutes: the attempt count passed to the
  waiter is 0, and the waiter still makes one status check before it gives up.
\<close>

theorem zero_timeout_still_checks_once:
  "int_of_truediv (0 * 60) 30 = Inr 0
 \<and> length (filter is_status_check (fst (wait_for_available world_never_ready (PStr ''db1'') 0))) = 1"
  by (simp add: wait_for_available_def wait_handlers_def waiter_wait.simps world_never_ready_def
      int_of_truediv_def Let_def)

text \<open>
  C7, amended. For a timeout of at least one minute (a whole number below \<open>2^52\<close>),
  \<^verbatim>\<open>wait_for_available\<close> starts the waiter with a delay of 30 seconds and exactly
  \<open>timeout_minutes * 60 / 30\<close> attempts, which is 60 for the 30 minutes that \<^verbatim>\<open>main\<close>
  passes. The waiter always returns; it sleeps 30 seconds between two status checks and
  makes at most as many checks as it has attempts. A whole run makes at most 60 status
  checks.
\<close>

theorem wait_is_bounded:
  assumes "1 \<le> timeout_minutes" and "timeout_minutes < 2 ^ 52"
  shows "int_of_truediv (timeout_minutes * 60) 30 = Inr (timeout_minutes * 60 div 30)
 \<and> (\<exists>tail. fst (wait_for_available w i timeout_minutes) =
       [Get_waiter ''db_instance_available'', Clock_read,
        Print [PStr ''Waiting for DB instance to become available (this may take several minutes)...''],
        Waiter_wait i [(''Delay'', PInt 30), (''MaxAttempts'', PInt (timeout_minutes * 60 div 30))]]
       @ fst (waiter_wait w i 30 (timeout_minutes * 60 div 30) 0) @ tail
     \<and> filter is_status_check tail = [])
 \<and> filter (\<lambda>e. e \<noteq> Api_status_check i \<and> e \<noteq> Sleep 30)
      (fst (waiter_wait w i 30 (timeout_minutes * 60 div 30) 0)) = []
 \<and> length (filter is_status_check (fst (wait_for_available w i timeout_minutes)))
      \<le> nat (timeout_minutes * 60 div 30)
 \<and> int_of_truediv (30 * 60) 30 = Inr 60
 \<and> length (filter is_status_check (fst (main w argv))) \<le> 60"
proof -
  have d: "timeout_minutes * 60 div 30 = 2 * timeout_minutes" by simp
  have b: "\<bar>timeout_minutes\<bar> < 2 ^ 52" using assms by simp
  have q: "int_of_truediv (timeout_minutes * 60) 30 = Inr (2 * timeout_minutes)"
    using b by (rule int_of_truediv_minutes)
  have t: "\<exists>tail. fst (wait_for_available w i timeout_minutes) =
       [Get_waiter ''db_instance_available'', Clock_read,
        Print [PStr ''Waiting for DB instance to become available (this may take several minutes)...''],
        Waiter_wait i [(''Delay'', PInt 30), (''MaxAttempts'', PInt (2 * timeout_minutes))]]
       @ fst (waiter_wait w i 30 (2 * timeout_minutes) 0) @ tail
     \<and> filter is_status_check tail = []"
    using wait_for_available_events [OF q, of w i] by auto
  have s: "filter (\<lambda>e. e \<noteq> Api_status_check i \<and> e \<noteq> Sleep 30)
      (fst (waiter_wait w i 30 (2 * timeout_minutes) 0)) = []"
    using waiter_sleeps [of w i 30 "2 * timeout_minutes" 0] by (auto simp: filter_empty_conv)
  have c: "length (filter is_status_check (fst (wait_for_available w i timeout_minutes)))
      \<le> nat (2 * timeout_minutes)"
    using wait_checks [OF q, of w i] assms(1) by (simp add: max_def)
  have h: "int_of_truediv (30 * 60) 30 = Inr 60"
    using int_of_truediv_1800 by simp
  show ?thesis
    unfolding d using q t s c h main_counts(3) [of w argv] by blast
qed

theorem wait_is_bounded_witness:
  "(1::int) \<le> 30 \<and> (30::int) < 2 ^ 52
 \<and> int_of_truediv (30 * 60) 30 = Inr (30 * 60 div 30)
 \<and> length (filter is_status_check (fst (wait_for_available world_never_ready (PStr ''db1'') 30)))
      \<le> nat (30 * 60 div 30)"
proof -
  have a: "(1::int) \<le> 30" by simp
  have b: "(30::int) < 2 ^ 52" by simp
  from wait_is_bounded [OF a b, of world_never_ready "PStr ''db1''" example_argv] a b
  show ?thesis by blast
qed

section \<open>No retry, no rollback\<close>

text \<open>
  C8. A run issues the create request at most once, starts the waiter at most once and
  issues the describe request at most once. When \<^verbatim>\<open>create_db_instance\<close> does not return
  \<^verbatim>\<open>True\<close> the run consists of the session, the client and the events of that one call,
  and ends with a non-zero exit status; when the create succeeds and
  \<^verbatim>\<open>wait_for_available\<close> does not return \<^verbatim>\<open>True\<close> the run ends with the events of that
  one wait, with a non-zero exit status. Nothing else is requested from the provider.
\<close>

theorem failure_halts_without_retry:
  "length (filter is_create_call (fst (main w argv))) \<le> 1
 \<and> length (filter is_wait_start (fst (main w argv))) \<le> 1
 \<and> length (filter is_describe_call (fst (main w argv))) \<le> 1
 \<and> (parse_args argv = Parsed a \<and> snd (create_db_instance w a) \<noteq> Inr True
      \<longrightarrow> fst (main w argv) = session_events a @ fst (create_db_instance w a)
        \<and> exit_code (snd (main w argv)) \<noteq> 0)
 \<and> (parse_args argv = Parsed a \<and> snd (create_db_instance w a) = Inr True
      \<and> snd (wait_for_available w (opt_str (db_instance_identifier a)) 30) \<noteq> Inr True
      \<longrightarrow> fst (main w argv) = session_events a @ fst (create_db_instance w a)
            @ fst (wait_for_available w (opt_str (db_instance_identifier a)) 30)
        \<and> exit_code (snd (main w argv)) \<noteq> 0)"
proof (intro conjI impI)
  show "length (filter is_create_call (fst (main w argv))) \<le> 1" by (rule main_counts)
  show "length (filter is_wait_start (fst (main w argv))) \<le> 1" by (rule main_counts)
  show "length (filter is_describe_call (fst (main w argv))) \<le> 1" by (rule main_counts)
next
  assume h: "parse_args argv = Parsed a \<and> snd (create_db_instance w a) \<noteq> Inr True"
  then have f: "snd (create_db_instance w a) \<noteq> Inr True" and m: "main w argv = main_from_args w a"
    by (simp_all add: main_parsed)
  from main_from_args_create_failed [OF f]
  show "fst (main w argv) = session_events a @ fst (create_db_instance w a)"
    and "exit_code (snd (main w argv)) \<noteq> 0" by (simp_all add: m)
next
  assume h: "parse_args argv = Parsed a \<and> snd (create_db_instance w a) = Inr True
      \<and> snd (wait_for_available w (opt_str (db_instance_identifier a)) 30) \<noteq> Inr True"
  then have m: "main w argv = main_from_args w a" by (simp add: main_parsed)
  obtain ev1 where c: "create_db_instance w a = (ev1, Inr True)"
    using h by (cases "create_db_instance w a") auto
  obtain ev2 r2 where wt: "wait_for_available w (opt_str (db_instance_identifier a)) 30 = (ev2, r2)"
    by (cases "wait_for_available w (opt_str (db_instance_identifier a)) 30")
  have r2: "r2 \<noteq> Inr True" using h wt by simp
  have "fst (main_from_args w a) = session_events a @ ev1 @ ev2 \<and> exit_code (snd (main_from_args w a)) \<noteq> 0"
    using c wt r2
    by (auto simp: main_from_args_def session_events_def Let_def split: sum.splits bool.splits)
  then show "fst (main w argv) = session_events a @ fst (create_db_instance w a)
            @ fst (wait_for_available w (opt_str (db_instance_identifier a)) 30)"
    and "exit_code (snd (main w argv)) \<noteq> 0" by (simp_all add: m c wt)
qed

theorem failure_halts_without_retry_witness:
  "fst (main world_create_denied example_argv)
     = session_events example_args @ fst (create_db_instance world_create_denied example_args)
 \<and> exit_code (snd (main world_create_denied example_argv)) \<noteq> 0
 \<and> fst (main world_never_ready example_argv)
     = session_events example_args @ fst (create_db_instance world_never_ready example_args)
       @ fst (wait_for_available world_never_ready (opt_str (db_instance_identifier example_args)) 30)
 \<and> exit_code (snd (main world_never_ready example_argv)) \<noteq> 0"
proof -
  have c: "create_reply world_create_denied = Inl (ClientError (error_response ''quota exceeded''))"
    by (simp add: world_create_denied_def)
  have f: "snd (create_db_instance world_create_denied example_args) \<noteq> Inr True"
    using create_db_instance_raises [OF c] .
  have a: "create_accepted world_never_ready (PStr ''creating'')"
    by (simp add: create_accepted_def world_never_ready_def world_ok_def py_get2_def)
  have ok: "snd (create_db_instance world_never_ready example_args) = Inr True"
    using create_db_instance_accepted [OF a, of example_args] by simp
  have wt: "snd (wait_for_available world_never_ready (opt_str (db_instance_identifier example_args)) 30) \<noteq> Inr True"
    using wait_timed_out [OF world_never_ready_wait, of example_args] by simp
  from failure_halts_without_retry [of world_create_denied example_argv example_args] parse_example f
  have 1: "fst (main world_create_denied example_argv)
     = session_events example_args @ fst (create_db_instance world_create_denied example_args)
   \<and> exit_code (snd (main world_create_denied example_argv)) \<noteq> 0" by blast
  from failure_halts_without_retry [of world_never_ready example_argv example_args] parse_example ok wt
  have 2: "fst (main world_never_ready example_argv)
     = session_events example_args @ fst (create_db_instance world_never_ready example_args)
       @ fst (wait_for_available world_never_ready (opt_str (db_instance_identifier example_args)) 30)
   \<and> exit_code (snd (main world_never_ready example_argv)) \<noteq> 0" by blast
  from 1 2 show ?thesis by blast
qed

section \<open>The secret prompt\<close>



section \<open>Facts about the parser\<close>

lemma option_strings_distinct: "distinct (map fst option_strings)"
  by (simp add: option_strings_def)

lemma option_strings_lookup: "(s, a) \<in> set option_strings \<Longrightarrow> map_of option_strings s = Some a"
  using option_strings_distinct by simp

lemma get_option_tuples_known:
  "Known a os sep ex \<in> set (get_option_tuples w) \<Longrightarrow> (os, a) \<in> set option_strings"
  by (auto simp: get_option_tuples_def split: if_splits prod.splits)

lemma parse_optional_known:
  "parse_optional w = Known a os sep ex \<Longrightarrow> map_of option_strings os = Some a"
proof -
  assume h: "parse_optional w = Known a os sep ex"
  show ?thesis
  proof (cases "get_option_tuples w")
    case Nil
    then show ?thesis using h
      by (auto simp: parse_optional_def split: if_splits option.splits prod.splits)
  next
    case (Cons t ts)
    then have "t \<in> set (get_option_tuples w)" by simp
    then show ?thesis using h Cons get_option_tuples_known [of a os sep ex w]
      by (cases ts) (auto simp: parse_optional_def option_strings_lookup
          split: if_splits option.splits prod.splits)
  qed
qed

lemma flag_cluster_is_help:
  "map_of option_strings os = Some a \<Longrightarrow> nargs_of a = N_zero \<Longrightarrow> hd (tl os) \<noteq> CHR ''-'' \<Longrightarrow> a = A_help"
  by (auto simp: option_strings_def split: if_splits)

lemma take_action_keeps_identifier:
  "a \<noteq> A_db_instance_identifier \<Longrightarrow> take_action a vs ns = Step_ok ns' \<Longrightarrow>
   db_instance_identifier ns' = db_instance_identifier ns"
  by (cases a; cases vs) (auto split: if_splits option.splits)

lemma consume_optional_None:
  "consume_optional a os sep None rest = Inr (ts, n, xs) \<Longrightarrow> \<exists>vs. ts = [(a, vs)]"
  by (cases "nargs_of a"; cases rest) (auto simp: consume_optional.simps(1) Let_def split: if_splits)

lemma consume_optional_Some_plain:
  "\<not> (nargs_of a = N_zero \<and> hd (tl os) \<noteq> CHR ''-'' \<and> e \<noteq> []) \<Longrightarrow>
   consume_optional a os sep (Some e) rest = Inr (ts, n, xs) \<Longrightarrow> ts = [(a, [e])]"
  by (subst (asm) consume_optional.simps(2)) (simp split: if_splits)

lemma consume_optional_Some_cluster:
  "nargs_of a = N_zero \<and> hd (tl os) \<noteq> CHR ''-'' \<and> e \<noteq> [] \<Longrightarrow>
   consume_optional a os sep (Some e) rest = Inr (ts, n, xs) \<Longrightarrow> \<exists>ts'. ts = (a, []) # ts'"
  by (subst (asm) consume_optional.simps(2))
     (auto split: if_splits option.splits sum.splits prod.splits simp: Let_def)

lemma consume_optional_keeps_identifier:
  assumes "a \<noteq> A_db_instance_identifier" and "map_of option_strings os = Some a"
    and "consume_optional a os sep ex rest = Inr (ts, n, xs)"
    and "run_actions ts ns = Step_ok ns'"
  shows "db_instance_identifier ns' = db_instance_identifier ns"
proof (cases ex)
  case None
  then obtain vs where "ts = [(a, vs)]"
    using assms(3) consume_optional_None by blast
  then show ?thesis using assms(1,4) take_action_keeps_identifier [of a vs ns ns']
    by (auto split: step.splits)
next
  case (Some e)
  show ?thesis
  proof (cases "nargs_of a = N_zero \<and> hd (tl os) \<noteq> CHR ''-'' \<and> e \<noteq> []")
    case True
    then have "a = A_help" using assms(2) flag_cluster_is_help by blast
    moreover obtain ts' where "ts = (a, []) # ts'"
      using assms(3) Some True consume_optional_Some_cluster by blast
    ultimately show ?thesis using assms(4) by simp
  next
    case False
    then have "ts = [(a, [e])]"
      using assms(3) Some consume_optional_Some_plain by blast
    then show ?thesis using assms(1,4) take_action_keeps_identifier [of a "[e]" ns ns']
      by (auto split: step.splits)
  qed
qed

lemma plain_words_drop: "list_all plain_word ws \<Longrightarrow> list_all plain_word (drop n ws)"
  by (auto simp: list_all_iff dest: in_set_dropD)

lemma consume_without_identifier:
  "list_all plain_word ws \<Longrightarrow> db_instance_identifier ns = None \<Longrightarrow>
   \<exists>n ev. consume ws ns xs = Parser_exit n ev"
proof (induction ws ns xs rule: consume.induct)
  case (1 ns extras)
  then show ?case by (simp add: finish_def)
next
  case (2 w c rest ns extras)
  have r: "list_all plain_word rest" using "2.prems"(1) by simp
  show ?case
  proof (cases c)
    case (Known a os sep ex)
    then have a: "a \<noteq> A_db_instance_identifier" and o: "map_of option_strings os = Some a"
      using "2.prems"(1) by simp_all
    show ?thesis
    proof (cases "consume_optional a os sep ex rest")
      case (Inl m)
      then show ?thesis using Known by simp
    next
      case (Inr t)
      obtain ts n xs' where t: "t = (ts, n, xs')" by (cases t) auto
      show ?thesis
      proof (cases "run_actions ts ns")
        case (Step_ok ns')
        have i: "db_instance_identifier ns' = None"
          using consume_optional_keeps_identifier [OF a o Inr [unfolded t] Step_ok] "2.prems"(2) by simp
        have d: "list_all plain_word (drop n rest)"
          using r by (rule plain_words_drop)
        have "\<exists>k ev. consume (drop n rest) ns' (extras @ xs') = Parser_exit k ev"
          using "2.IH"(3) [OF Known Inr t [symmetric] refl Step_ok d i] .
        then show ?thesis using Known Inr t Step_ok by simp
      next
        case (Step_error m)
        then show ?thesis using Known Inr t by simp
      next
        case Step_help
        then show ?thesis using Known Inr t by simp
      qed
    qed
  next
    case Positional
    then show ?thesis using "2.IH"(1) [OF Positional r "2.prems"(2)] by simp
  next
    case Double_dash
    then show ?thesis using "2.IH"(2) [OF Double_dash r "2.prems"(2)] by simp
  next
    case Unknown_option
    then show ?thesis using "2.IH"(4) [OF Unknown_option r "2.prems"(2)] by simp
  next
    case Ambiguous
    then show ?thesis using "2.IH"(5) [OF Ambiguous r "2.prems"(2)] by simp
  qed
qed

lemma classify_words: "map fst (classify argv) = argv"
  by (induction argv) (auto simp: comp_def)

lemma classify_known: "list_all known_word (classify argv)"
proof (induction argv)
  case Nil
  then show ?case by simp
next
  case (Cons w ws)
  show ?case
  proof (cases "w = ''--''")
    case True
    then show ?thesis by (simp add: list_all_iff)
  next
    case False
    have "known_word (w, parse_optional w)"
      using parse_optional_known [of w] by (cases "parse_optional w") auto
    then show ?thesis using False Cons by simp
  qed
qed

lemma classify_plain:
  assumes "omits_identifier argv"
  shows "list_all plain_word (classify argv)"
proof -
  have "plain_word x" if "x \<in> set (classify argv)" for x
  proof -
    obtain w c where x: "x = (w, c)" by (cases x)
    have k: "known_word (w, c)" using classify_known [of argv] that x by (simp add: list_all_iff)
    have n: "\<not> names_identifier c" using assms that x by (auto simp: omits_identifier_def list_all_iff)
    show ?thesis using k n x by (cases c) auto
  qed
  then show ?thesis by (simp add: list_all_iff)
qed

lemma classify_helpless:
  assumes "no_help_option argv"
  shows "list_all helpless_word (classify argv)"
proof -
  have "helpless_word x" if "x \<in> set (classify argv)" for x
  proof -
    obtain w c where x: "x = (w, c)" by (cases x)
    have k: "known_word (w, c)" using classify_known [of argv] that x by (simp add: list_all_iff)
    have n: "\<not> names_help c" using assms that x by (auto simp: no_help_option_def list_all_iff)
    show ?thesis using k n x by (cases c) auto
  qed
  then show ?thesis by (simp add: list_all_iff)
qed

lemma parse_args_without_identifier:
  "omits_identifier argv \<Longrightarrow> \<exists>n ev. parse_args argv = Parser_exit n ev"
  using consume_without_identifier [OF classify_plain, of argv default_args "[]"]
  by (auto simp: parse_args_def Let_def default_args_def)

lemma take_action_not_help: "a \<noteq> A_help \<Longrightarrow> take_action a vs ns \<noteq> Step_help"
  by (cases a; cases vs) (auto split: if_splits option.splits)

lemma consume_optional_no_help:
  assumes "a \<noteq> A_help" and "map_of option_strings os = Some a"
    and "consume_optional a os sep ex rest = Inr (ts, n, xs)"
  shows "run_actions ts ns \<noteq> Step_help"
proof (cases ex)
  case None
  then obtain vs where "ts = [(a, vs)]"
    using assms(3) consume_optional_None by blast
  then show ?thesis using take_action_not_help [OF assms(1), of vs ns]
    by (auto split: step.splits)
next
  case (Some e)
  have "\<not> (nargs_of a = N_zero \<and> hd (tl os) \<noteq> CHR ''-'' \<and> e \<noteq> [])"
    using assms(1,2) flag_cluster_is_help by blast
  then have "ts = [(a, [e])]"
    using assms(3) Some consume_optional_Some_plain by blast
  then show ?thesis using take_action_not_help [OF assms(1), of "[e]" ns]
    by (auto split: step.splits)
qed

lemma helpless_words_drop: "list_all helpless_word ws \<Longrightarrow> list_all helpless_word (drop n ws)"
  by (auto simp: list_all_iff dest: in_set_dropD)

lemma consume_without_help:
  "list_all helpless_word ws \<Longrightarrow> consume ws ns xs \<noteq> Parser_exit 0 [Print_help]"
proof (induction ws ns xs rule: consume.induct)
  case (1 ns extras)
  then show ?case by (simp add: finish_def)
next
  case (2 w c rest ns extras)
  have r: "list_all helpless_word rest" using "2.prems"(1) by simp
  show ?case
  proof (cases c)
    case (Known a os sep ex)
    then have a: "a \<noteq> A_help" and o: "map_of option_strings os = Some a"
      using "2.prems"(1) by simp_all
    show ?thesis
    proof (cases "consume_optional a os sep ex rest")
      case (Inl m)
      then show ?thesis using Known by simp
    next
      case (Inr t)
      obtain ts n xs' where t: "t = (ts, n, xs')" by (cases t) auto
      show ?thesis
      proof (cases "run_actions ts ns")
        case (Step_ok ns')
        have d: "list_all helpless_word (drop n rest)"
          using r by (rule helpless_words_drop)
        have "consume (drop n rest) ns' (extras @ xs') \<noteq> Parser_exit 0 [Print_help]"
          using "2.IH"(3) [OF Known Inr t [symmetric] refl Step_ok d] .
        then show ?thesis using Known Inr t Step_ok by simp
      next
        case (Step_error m)
        then show ?thesis using Known Inr t by simp
      next
        case Step_help
        then show ?thesis using consume_optional_no_help [OF a o Inr [unfolded t], of ns] by simp
      qed
    qed
  next
    case Positional
    then show ?thesis using "2.IH"(1) [OF Positional r] by simp
  next
    case Double_dash
    then show ?thesis using "2.IH"(2) [OF Double_dash r] by simp
  next
    case Unknown_option
    then show ?thesis using "2.IH"(4) [OF Unknown_option r] by simp
  next
    case Ambiguous
    then show ?thesis using "2.IH"(5) [OF Ambiguous r] by simp
  qed
qed

lemma parse_args_without_help:
  "no_help_option argv \<Longrightarrow> parse_args argv \<noteq> Parser_exit 0 [Print_help]"
  using consume_without_help [OF classify_helpless, of argv default_args "[]"]
  by (auto simp: parse_args_def Let_def)

section \<open>A command line without the identifier\<close>

text \<open>
  C3, as the claim states it: a command line that omits the identifier ends in a usage
  error. It fails for \<^verbatim>\<open>--help\<close>: the parser prints the help text and exits with
  status 0, and never reports the missing argument.
\<close>

theorem help_without_identifier_is_no_usage_error:
  "omits_identifier [''--help'']
 \<and> main world_ok [''--help''] = ([Print_help], Sys_exit 0)
 \<and> exit_code (snd (main world_ok [''--help''])) = 0"
proof -
  have o: "omits_identifier [''--help'']" by code_simp
  have p: "parse_args [''--help''] = Parser_exit 0 [Print_help]" by code_simp
  show ?thesis using o p by (simp add: main_def)
qed

text \<open>
  C3, amended. A command line that omits the identifier makes the program exit during
  argument parsing, before any provider session or network call. The exit is a usage
  error with status 2, always so when the command line has no help option; on a command
  line that has a help option (\<^verbatim>\<open>-h\<close>, \<^verbatim>\<open>--help\<close>) it may instead be the help text
  with status 0. The run consists of that one message.
\<close>

theorem missing_identifier_exits_in_parser:
  assumes "omits_identifier argv"
  shows "((\<exists>m. main w argv = ([Print_usage_error m], Sys_exit 2))
          \<or> (\<not> no_help_option argv \<and> main w argv = ([Print_help], Sys_exit 0)))
       \<and> filter is_provider_call (fst (main w argv)) = []"
proof -
  obtain n ev where p: "parse_args argv = Parser_exit n ev"
    using parse_args_without_identifier [OF assms] by blast
  have h: "\<not> no_help_option argv" if "n = 0 \<and> ev = [Print_help]"
    using parse_args_without_help [of argv] p that by auto
  from parse_args_exit [OF p] p h show ?thesis by (auto simp: main_def)
qed

theorem missing_identifier_exits_in_parser_witness:
  "omits_identifier [''--engine'', ''mysql'']
 \<and> no_help_option [''--engine'', ''mysql'']
 \<and> (\<exists>m. main world_ok [''--engine'', ''mysql''] = ([Print_usage_error m], Sys_exit 2))
 \<and> filter is_provider_call (fst (main world_ok [''--engine'', ''mysql''])) = []"
proof -
  have o: "omits_identifier [''--engine'', ''mysql'']" by code_simp
  have n: "no_help_option [''--engine'', ''mysql'']" by code_simp
  from missing_identifier_exits_in_parser [OF o, of world_ok] o n show ?thesis by blast
qed

lemma consume_optional_count:
  "consume_optional a os sep ex rest = Inr (ts, n, xs) \<Longrightarrow>
   n \<le> length (takeWhile is_positional rest)"
proof (induction a os sep ex rest arbitrary: ts n xs rule: consume_optional.induct)
  case (1 a os sep rest)
  then show ?case
    by (cases "nargs_of a"; cases rest) (auto simp: consume_optional.simps(1) Let_def split: if_splits)
next
  case (2 a os sep ex rest)
  show ?case
  proof (cases "nargs_of a = N_zero \<and> hd (tl os) \<noteq> CHR ''-'' \<and> ex \<noteq> []")
    case False
    then show ?thesis using "2.prems"
      by (subst (asm) consume_optional.simps(2)) (auto split: if_splits)
  next
    case True
    show ?thesis
    proof (cases "sep \<or> hd ex = CHR ''-''")
      case True
      then show ?thesis using "2.prems" \<open>nargs_of a = N_zero \<and> hd (tl os) \<noteq> CHR ''-'' \<and> ex \<noteq> []\<close>
        by (subst (asm) consume_optional.simps(2)) simp
    next
      case False
      show ?thesis
      proof (cases "map_of option_strings [hd os, hd ex]")
        case None
        then show ?thesis using "2.prems" True False
          by (subst (asm) consume_optional.simps(2)) (auto simp: Let_def)
      next
        case (Some a')
        let ?r = "consume_optional a' [hd os, hd ex]
                    (tl ex \<noteq> [] \<and> hd (tl ex) = CHR ''='')
                    (if tl ex = [] then None
                     else if hd (tl ex) = CHR ''='' then Some (tl (tl ex))
                     else Some (tl ex)) rest"
        obtain ts' where r: "?r = Inr (ts', n, xs)"
          using "2.prems" True False Some
          by (subst (asm) consume_optional.simps(2)) (auto simp: Let_def split: sum.splits)
        show ?thesis
          using "2.IH" [OF _ _ refl Some r] True False by blast
      qed
    qed
  qed
qed

lemma foreign_engine_drop:
  "foreign_engine rest \<Longrightarrow> n \<le> length (takeWhile is_positional rest) \<Longrightarrow>
   foreign_engine (drop n rest)"
proof (induction rest arbitrary: n)
  case Nil
  then show ?case by simp
next
  case (Cons r rest)
  show ?case
  proof (cases n)
    case 0
    then show ?thesis using Cons.prems by simp
  next
    case (Suc k)
    obtain w c where r: "r = (w, c)" by (cases r)
    have p: "is_positional r" using Cons.prems(2) Suc by (auto split: if_splits)
    then have c: "c = Positional" using r by (cases c) auto
    have "foreign_engine rest" using Cons.prems(1) r c by simp
    moreover have "k \<le> length (takeWhile is_positional rest)" using Cons.prems(2) Suc p by simp
    ultimately show ?thesis using Cons.IH Suc by simp
  qed
qed

lemma engine_rejected:
  "v \<notin> set engine_choices \<Longrightarrow> run_actions [(A_engine, [v])] ns = Step_error ''invalid choice''"
  by simp

lemma engine_head_exits:
  assumes "engine_value_outside (Known a os sep ex) (map fst rest)"
  shows "(\<exists>m. consume_optional a os sep ex rest = Inl m)
       \<or> (\<exists>ts n xs m. consume_optional a os sep ex rest = Inr (ts, n, xs)
              \<and> run_actions ts ns = Step_error m)"
proof (cases ex)
  case (Some v)
  then have a: "a = A_engine" and v: "v \<notin> set engine_choices" using assms by simp_all
  have "consume_optional a os sep ex rest = Inr ([(A_engine, [v])], 0, [])"
    using Some a by (simp add: consume_optional.simps(2))
  then show ?thesis using engine_rejected [OF v] by blast
next
  case None
  then obtain r rs where rest: "rest = r # rs" using assms by (cases rest) auto
  then have a: "a = A_engine" and v: "fst r \<notin> set engine_choices" using assms None by simp_all
  show ?thesis
  proof (cases "is_positional r")
    case True
    then have "consume_optional a os sep ex rest = Inr ([(A_engine, [fst r])], 1, [])"
      using None a rest by (simp add: consume_optional.simps(1))
    then show ?thesis using engine_rejected [OF v] by blast
  next
    case False
    then have "consume_optional a os sep ex rest = Inl ''expected one argument''"
      using None a rest by (simp add: consume_optional.simps(1))
    then show ?thesis by blast
  qed
qed

lemma consume_foreign_engine:
  "foreign_engine ws \<Longrightarrow> \<exists>n ev. consume ws ns xs = Parser_exit n ev"
proof (induction ws ns xs rule: consume.induct)
  case (1 ns extras)
  then show ?case by simp
next
  case (2 w c rest ns extras)
  show ?case
  proof (cases c)
    case (Known a os sep ex)
    show ?thesis
    proof (cases "engine_value_outside c (map fst rest)")
      case True
      then show ?thesis using engine_head_exits [of a os sep ex rest ns] Known by auto
    next
      case False
      then have f: "foreign_engine rest" using "2.prems" by simp
      show ?thesis
      proof (cases "consume_optional a os sep ex rest")
        case (Inl m)
        then show ?thesis using Known by simp
      next
        case (Inr t)
        obtain ts n xs' where t: "t = (ts, n, xs')" by (cases t) auto
        show ?thesis
        proof (cases "run_actions ts ns")
          case (Step_ok ns')
          have d: "foreign_engine (drop n rest)"
            using foreign_engine_drop [OF f consume_optional_count [OF Inr [unfolded t]]] .
          have "\<exists>k ev. consume (drop n rest) ns' (extras @ xs') = Parser_exit k ev"
            using "2.IH"(3) [OF Known Inr t [symmetric] refl Step_ok d] .
          then show ?thesis using Known Inr t Step_ok by simp
        next
          case (Step_error m)
          then show ?thesis using Known Inr t by simp
        next
          case Step_help
          then show ?thesis using Known Inr t by simp
        qed
      qed
    qed
  next
    case Positional
    then have "foreign_engine rest" using "2.prems" by simp
    then show ?thesis using "2.IH"(1) [OF Positional] Positional by simp
  next
    case Double_dash
    then have "foreign_engine rest" using "2.prems" by simp
    then show ?thesis using "2.IH"(2) [OF Double_dash] Double_dash by simp
  next
    case Unknown_option
    then have "foreign_engine rest" using "2.prems" by simp
    then show ?thesis using "2.IH"(4) [OF Unknown_option] Unknown_option by simp
  next
    case Ambiguous
    then have "foreign_engine rest" using "2.prems" by simp
    then show ?thesis using "2.IH"(5) [OF Ambiguous] Ambiguous by simp
  qed
qed

lemma classify_foreign:
  "engine_outside argv \<Longrightarrow> foreign_engine (classify argv)"
  by (induction argv) (auto simp: classify_words)

lemma parse_args_foreign_engine:
  "engine_outside argv \<Longrightarrow> \<exists>n ev. parse_args argv = Parser_exit n ev"
  using consume_foreign_engine [OF classify_foreign, of argv default_args "[]"]
  by (auto simp: parse_args_def Let_def)

lemma known_words_drop: "list_all known_word ws \<Longrightarrow> list_all known_word (drop n ws)"
  by (auto simp: list_all_iff dest: in_set_dropD)

lemma foreign_engine_first_drop:
  "foreign_engine_first rest \<Longrightarrow> n \<le> length (takeWhile is_positional rest) \<Longrightarrow>
   foreign_engine_first (drop n rest)"
proof (induction rest arbitrary: n)
  case Nil
  then show ?case by simp
next
  case (Cons r rest)
  show ?case
  proof (cases n)
    case 0
    then show ?thesis using Cons.prems by simp
  next
    case (Suc k)
    obtain w c where r: "r = (w, c)" by (cases r)
    have p: "is_positional r" using Cons.prems(2) Suc by (auto split: if_splits)
    then have c: "c = Positional" using r by (cases c) auto
    have "foreign_engine_first rest" using Cons.prems(1) r c by simp
    moreover have "k \<le> length (takeWhile is_positional rest)" using Cons.prems(2) Suc p by simp
    ultimately show ?thesis using Cons.IH Suc by simp
  qed
qed

lemma consume_foreign_engine_first:
  "foreign_engine_first ws \<Longrightarrow> list_all known_word ws \<Longrightarrow>
   \<exists>m. consume ws ns xs = Parser_exit 2 [Print_usage_error m]"
proof (induction ws ns xs rule: consume.induct)
  case (1 ns extras)
  then show ?case by simp
next
  case (2 w c rest ns extras)
  have k: "list_all known_word rest" using "2.prems"(2) by simp
  show ?case
  proof (cases c)
    case (Known a os sep ex)
    have o: "map_of option_strings os = Some a" using "2.prems"(2) Known by simp
    show ?thesis
    proof (cases "engine_value_outside c (map fst rest)")
      case True
      then show ?thesis using engine_head_exits [of a os sep ex rest ns] Known by auto
    next
      case False
      then have f: "foreign_engine_first rest" and nh: "a \<noteq> A_help"
        using "2.prems"(1) Known by auto
      show ?thesis
      proof (cases "consume_optional a os sep ex rest")
        case (Inl m)
        then show ?thesis using Known by simp
      next
        case (Inr t)
        obtain ts n xs' where t: "t = (ts, n, xs')" by (cases t) auto
        show ?thesis
        proof (cases "run_actions ts ns")
          case (Step_ok ns')
          have d: "foreign_engine_first (drop n rest)"
            using foreign_engine_first_drop [OF f consume_optional_count [OF Inr [unfolded t]]] .
          have kd: "list_all known_word (drop n rest)" using k by (rule known_words_drop)
          have "\<exists>m. consume (drop n rest) ns' (extras @ xs') = Parser_exit 2 [Print_usage_error m]"
            using "2.IH"(3) [OF Known Inr t [symmetric] refl Step_ok d kd] .
          then show ?thesis using Known Inr t Step_ok by simp
        next
          case (Step_error m)
          then show ?thesis using Known Inr t by simp
        next
          case Step_help
          then show ?thesis using consume_optional_no_help [OF nh o Inr [unfolded t], of ns] by simp
        qed
      qed
    qed
  next
    case Positional
    then have "foreign_engine_first rest" using "2.prems" by simp
    then show ?thesis using "2.IH"(1) [OF Positional _ k] Positional by simp
  next
    case Double_dash
    then have "foreign_engine_first rest" using "2.prems" by simp
    then show ?thesis using "2.IH"(2) [OF Double_dash _ k] Double_dash by simp
  next
    case Unknown_option
    then have "foreign_engine_first rest" using "2.prems" by simp
    then show ?thesis using "2.IH"(4) [OF Unknown_option _ k] Unknown_option by simp
  next
    case Ambiguous
    then have "foreign_engine_first rest" using "2.prems" by simp
    then show ?thesis using "2.IH"(5) [OF Ambiguous _ k] Ambiguous by simp
  qed
qed

lemma classify_foreign_first:
  "engine_before_help argv \<Longrightarrow> foreign_engine_first (classify argv)"
  by (induction argv) (auto simp: classify_words)

lemma parse_args_engine_before_help:
  "engine_before_help argv \<Longrightarrow> \<exists>m. parse_args argv = Parser_exit 2 [Print_usage_error m]"
  using consume_foreign_engine_first [OF classify_foreign_first classify_known, of argv default_args "[]"]
  by (auto simp: parse_args_def Let_def)

section \<open>An engine outside the choices\<close>

text \<open>
  C4, as the claim states it: an engine outside the enumeration is rejected. It fails
  when a help option comes first: \<^verbatim>\<open>-h --engine sqlite\<close> prints the help text and exits
  with status 0, and the engine is never looked at.
\<close>

theorem help_before_foreign_engine_is_not_rejected:
  "engine_outside [''-h'', ''--engine'', ''sqlite'']
 \<and> main world_ok [''-h'', ''--engine'', ''sqlite''] = ([Print_help], Sys_exit 0)
 \<and> exit_code (snd (main world_ok [''-h'', ''--engine'', ''sqlite''])) = 0"
proof -
  have o: "engine_outside [''-h'', ''--engine'', ''sqlite'']" by code_simp
  have p: "parse_args [''-h'', ''--engine'', ''sqlite''] = Parser_exit 0 [Print_help]" by code_simp
  show ?thesis using o p by (simp add: main_def)
qed

text \<open>
  C4, amended. A command line on which the engine option is given a value outside
  \<^verbatim>\<open>postgres\<close>, \<^verbatim>\<open>mysql\<close>, \<^verbatim>\<open>mariadb\<close>, \<^verbatim>\<open>oracle-se2\<close>, \<^verbatim>\<open>sqlserver-ex\<close> makes the program
  exit during argument parsing, before any provider session or network call. The exit
  is a usage error with status 2, always so when no help option comes before that engine
  argument; when a help option comes before it, the exit may instead be the help text
  with status 0.
\<close>

theorem foreign_engine_exits_in_parser:
  assumes "engine_outside argv"
  shows "((\<exists>m. main w argv = ([Print_usage_error m], Sys_exit 2))
          \<or> (\<not> engine_before_help argv \<and> main w argv = ([Print_help], Sys_exit 0)))
       \<and> filter is_provider_call (fst (main w argv)) = []"
proof (cases "engine_before_help argv")
  case True
  then obtain m where "parse_args argv = Parser_exit 2 [Print_usage_error m]"
    using parse_args_engine_before_help by blast
  then show ?thesis by (simp add: main_def)
next
  case False
  obtain n ev where p: "parse_args argv = Parser_exit n ev"
    using parse_args_foreign_engine [OF assms] by blast
  from parse_args_exit [OF p] p False show ?thesis by (auto simp: main_def)
qed

theorem foreign_engine_exits_in_parser_witness:
  "engine_outside [''-i'', ''db1'', ''--engine'', ''sqlite'']
 \<and> engine_before_help [''-i'', ''db1'', ''--engine'', ''sqlite'']
 \<and> (\<exists>m. main world_ok [''-i'', ''db1'', ''--engine'', ''sqlite''] = ([Print_usage_error m], Sys_exit 2))
 \<and> filter is_provider_call (fst (main world_ok [''-i'', ''db1'', ''--engine'', ''sqlite''])) = []"
proof -
  have o: "engine_outside [''-i'', ''db1'', ''--engine'', ''sqlite'']" by code_simp
  have b: "engine_before_help [''-i'', ''db1'', ''--engine'', ''sqlite'']" by code_simp
  from foreign_engine_exits_in_parser [OF o, of world_ok] o b show ?thesis by blast
qed

end
